theory Spec2Isabelle
  imports Main "HOL-Library.Word"
begin

section \<open>Platform types and the C library calendar\<close>

text \<open>
  \<open>time_t\<close> counts seconds since 1970-01-01T00:00:00 UTC. Its width is fixed by the
  platform's C library, not by the sketch; it is modelled as a mathematical integer, so the
  development speaks about the instants at which the C arithmetic does not overflow.
  \<open>unsigned long\<close> is 32 bits wide on the ESP8266 and is modelled as a 32-bit word, whose
  subtraction wraps around as the C one does.
\<close>

type_synonym time_t = int
type_synonym ulong = "32 word"

text \<open>The fields of \<open>struct tm\<close> that the sketch reads or writes.\<close>

record tm =
  tm_sec :: int
  tm_min :: int
  tm_hour :: int
  tm_mday :: int
  tm_mon :: int
  tm_year :: int
  tm_wday :: int

text \<open>C's \<open>%\<close> truncates towards zero: the remainder has the sign of the dividend.\<close>

definition c_rem :: "int \<Rightarrow> int \<Rightarrow> int" where
  "c_rem a b = sgn a * (\<bar>a\<bar> mod \<bar>b\<bar>)"

text \<open>
  Modelled from the spec: \<open>gmtime\<close> and \<open>mktime\<close> belong to the platform's C library and
  are not part of the repository. The spec has a UTC instant "decomposed into (year, month,
  day, hour, minute, second) via standard civil-calendar rules"; the decomposition below is
  the proleptic Gregorian one, computed on years that begin on 1 March, in eras of 400 years
  (146097 days), the way the C library of the ESP8266 toolchain computes it.
\<close>

definition era_year :: "int \<Rightarrow> int" where
  "era_year eraday =
     (eraday - eraday div 1460 + eraday div 36524 - eraday div 146096) div 365"

definition year_day :: "int \<Rightarrow> int" where
  "year_day eraday =
     (let erayear = era_year eraday
      in eraday - (365 * erayear + erayear div 4 - erayear div 100))"

text \<open>Days since the epoch to (year, month 1..12, day of month).\<close>

definition civil_from_days :: "int \<Rightarrow> int \<times> int \<times> int" where
  "civil_from_days z =
     (let days = z + 719468;
          era = days div 146097;
          eraday = days mod 146097;
          erayear = era_year eraday;
          yearday = year_day eraday;
          mp = (5 * yearday + 2) div 153;
          day = yearday - (153 * mp + 2) div 5 + 1;
          month = (if mp < 10 then mp + 3 else mp - 9);
          year = erayear + era * 400 + (if month \<le> 2 then 1 else 0)
      in (year, month, day))"

text \<open>(year, month, day of month) to days since the epoch; the day may exceed the month's
  length and then runs into the following month, as \<open>mktime\<close> normalises it.\<close>

definition days_from_civil :: "int \<Rightarrow> int \<Rightarrow> int \<Rightarrow> int" where
  "days_from_civil y m d =
     (let y' = (if m \<le> 2 then y - 1 else y);
          era = y' div 400;
          yoe = y' mod 400;
          mp = (if m > 2 then m - 3 else m + 9);
          doy = (153 * mp + 2) div 5 + d - 1;
          doe = yoe * 365 + yoe div 4 - yoe div 100 + doy
      in era * 146097 + doe - 719468)"

text \<open>Day of the week of a day number, 0 = Sunday; 1970-01-01 was a Thursday.\<close>

definition weekday :: "int \<Rightarrow> int" where
  "weekday z = (z + 4) mod 7"

definition gmtime :: "time_t \<Rightarrow> tm option" where
  "gmtime t =
     (let days = t div 86400;
          rem = t mod 86400;
          (year, month, day) = civil_from_days days
      in Some \<lparr>tm_sec = rem mod 60, tm_min = (rem mod 3600) div 60, tm_hour = rem div 3600,
               tm_mday = day, tm_mon = month - 1, tm_year = year - 1900,
               tm_wday = weekday days\<rparr>)"

text \<open>The instant of a civil date and time of day in UTC (the inverse of \<open>gmtime\<close>).\<close>

definition timegm :: "int \<Rightarrow> int \<Rightarrow> int \<Rightarrow> int \<Rightarrow> int \<Rightarrow> int \<Rightarrow> time_t" where
  "timegm y m d h mi s = 86400 * days_from_civil y m d + 3600 * h + 60 * mi + s"

text \<open>
  \<open>mktime\<close> with the local zone equal to UTC (the sketch configures the zone with
  \<open>configTime(0, 0, ...)\<close>): the fields are normalised and \<open>tm_wday\<close> is filled in.
\<close>

definition mktime :: "tm \<Rightarrow> tm" where
  "mktime t =
     (let year = tm_year t + 1900 + tm_mon t div 12;
          month = tm_mon t mod 12 + 1;
          secs = timegm year month (tm_mday t) (tm_hour t) (tm_min t) (tm_sec t)
      in case gmtime secs of None \<Rightarrow> t | Some t' \<Rightarrow> t')"

text \<open>
  The civil calendar in the words of the spec, for stating the daylight-saving rule: leap
  years, the lengths of the months, and the last Sunday of a month, which is the Sunday of
  the month whose following Sunday lies outside it.
\<close>

definition is_leap :: "int \<Rightarrow> bool" where
  "is_leap y = (if y mod 400 = 0 then True else if y mod 100 = 0 then False else y mod 4 = 0)"

definition days_in_month :: "int \<Rightarrow> int \<Rightarrow> int" where
  "days_in_month y m =
     (if m = 2 then (if is_leap y then 29 else 28)
      else if m = 4 \<or> m = 6 \<or> m = 9 \<or> m = 11 then 30
      else 31)"

definition is_last_sunday :: "int \<Rightarrow> int \<Rightarrow> int \<Rightarrow> bool" where
  "is_last_sunday y m d =
     (1 \<le> d \<and> d \<le> days_in_month y m \<and> weekday (days_from_civil y m d) = 0
      \<and> days_in_month y m < d + 7)"

definition tm_zero :: tm where
  "tm_zero = \<lparr>tm_sec = 0, tm_min = 0, tm_hour = 0, tm_mday = 0, tm_mon = 0, tm_year = 0,
              tm_wday = 0\<rparr>"

section \<open>Global state of the sketch\<close>

datatype ClockState_t = STATE_WIFI_CONFIG | STATE_WAIT_FOR_TIME | STATE_SHOW_CLOCK

text \<open>
  The global variables of the time-keeping core. The LED strip, the serial log and the
  brightness variables are outputs that none of the functions below reads; they are left out.
\<close>

record globals =
  myState :: ClockState_t
  rtcBaseTime :: time_t
  rtcBaseMillis :: ulong
  nextNtpSyncEpoch :: time_t
  ntpSyncInProgress :: bool
  ntpSyncStartMs :: ulong
  wifiLostSinceMs :: ulong
  t_sec :: int
  t_min :: int
  t_hour :: int
  lastRenderMillis :: ulong

definition ntpSyncHour :: int where "ntpSyncHour = 3"
definition ntpSyncMinute :: int where "ntpSyncMinute = 5"
definition ntpWaitTimeoutMs :: ulong where "ntpWaitTimeoutMs = 20000"
definition wifiLostTimeoutMs :: ulong where "wifiLostTimeoutMs = 60000"
definition renderIntervalMs :: ulong where "renderIntervalMs = 20"

text \<open>The initial values of the globals, with \<open>myState\<close> as \<open>setup\<close> leaves it.\<close>

definition initialGlobals :: globals where
  "initialGlobals =
     \<lparr>myState = STATE_WIFI_CONFIG, rtcBaseTime = 0, rtcBaseMillis = 0, nextNtpSyncEpoch = 0,
      ntpSyncInProgress = False, ntpSyncStartMs = 0, wifiLostSinceMs = 0,
      t_sec = 0, t_min = 0, t_hour = 0, lastRenderMillis = 0\<rparr>"

section \<open>Calendar math of the sketch\<close>

definition isTimeValid :: "time_t \<Rightarrow> bool" where
  "isTimeValid now = (if now < 1451606400 then False else True)"

definition lastSunday :: "int \<Rightarrow> int \<Rightarrow> int" where
  "lastSunday year month =
     (let t = mktime (tm_zero\<lparr>tm_year := year - 1900, tm_mon := month - 1, tm_mday := 31,
                              tm_hour := 12, tm_min := 0, tm_sec := 0\<rparr>)
      in 31 - tm_wday t)"

definition isDstEurope :: "time_t \<Rightarrow> bool" where
  "isDstEurope utc =
     (case gmtime utc of
        None \<Rightarrow> False
      | Some t \<Rightarrow>
          (let year = tm_year t + 1900;
               month = tm_mon t + 1;
               day = tm_mday t;
               hour = tm_hour t
           in if month < 3 \<or> month > 10 then False
              else if month > 3 \<and> month < 10 then True
              else if month = 3 then
                (let ls = lastSunday year 3
                 in if day > ls then True else if day < ls then False else (hour \<ge> 1))
              else if month = 10 then
                (let ls = lastSunday year 10
                 in if day < ls then True else if day > ls then False else (hour < 1))
              else False))"

definition getUtcOffsetSeconds :: "time_t \<Rightarrow> int" where
  "getUtcOffsetSeconds utc = (if isDstEurope utc then 7200 else 3600)"

definition getDisplayTime :: "time_t \<Rightarrow> time_t" where
  "getDisplayTime utc = utc + getUtcOffsetSeconds utc"

section \<open>Internal clock\<close>

text \<open>
  The readings of the platform are arguments: \<open>sysTime\<close> is what \<open>time(nullptr)\<close> returns
  at the call, \<open>nowMillis\<close> what \<open>millis()\<close> returns.
\<close>

definition getCurrentRtcTime :: "time_t \<Rightarrow> ulong \<Rightarrow> globals \<Rightarrow> time_t" where
  "getCurrentRtcTime sysTime nowMillis g =
     (if rtcBaseTime g = 0 then sysTime
      else (let elapsedMs = nowMillis - rtcBaseMillis g
            in rtcBaseTime g + uint (elapsedMs div 1000)))"

section \<open>Resync scheduler\<close>

definition maxMinutes :: int where "maxMinutes = 48 * 60"

function scanFrom :: "int \<Rightarrow> time_t \<Rightarrow> time_t option" where
  "scanFrom i startUtc =
     (if i < maxMinutes then
        (let candidateUtc = startUtc + i * 60;
             candidateDisp = getDisplayTime candidateUtc
         in case gmtime candidateDisp of
              None \<Rightarrow> scanFrom (i + 1) startUtc
            | Some d \<Rightarrow>
                if tm_hour d = ntpSyncHour \<and> tm_min d = ntpSyncMinute \<and> tm_sec d = 0
                then Some candidateUtc
                else scanFrom (i + 1) startUtc)
      else None)"
  by pat_completeness auto
termination
  by (relation "measure (\<lambda>(i, startUtc). nat (maxMinutes - i))") auto

declare scanFrom.simps [simp del]

text \<open>The test of the scan's body on one candidate, for stating what the scan finds.\<close>

definition displayMatches :: "time_t \<Rightarrow> bool" where
  "displayMatches candidateUtc =
     (case gmtime (getDisplayTime candidateUtc) of
        None \<Rightarrow> False
      | Some d \<Rightarrow> tm_hour d = ntpSyncHour \<and> tm_min d = ntpSyncMinute \<and> tm_sec d = 0)"

definition scheduleNextNightlySync :: "time_t \<Rightarrow> globals \<Rightarrow> globals" where
  "scheduleNextNightlySync currentUtc g =
     (let startUtc = currentUtc - c_rem currentUtc 60 + 60
      in case scanFrom 0 startUtc of
           Some candidateUtc \<Rightarrow> g\<lparr>nextNtpSyncEpoch := candidateUtc\<rparr>
         | None \<Rightarrow> g\<lparr>nextNtpSyncEpoch := currentUtc + 24 * 3600\<rparr>)"

definition shouldStartNightlySync :: "time_t \<Rightarrow> globals \<Rightarrow> bool \<times> globals" where
  "shouldStartNightlySync currentUtc g =
     (if nextNtpSyncEpoch g = 0 then (False, scheduleNextNightlySync currentUtc g)
      else if currentUtc < nextNtpSyncEpoch g then (False, g)
      else (True, scheduleNextNightlySync currentUtc g))"

definition syncRtcFromSystemTime :: "time_t \<Rightarrow> ulong \<Rightarrow> globals \<Rightarrow> bool \<times> globals" where
  "syncRtcFromSystemTime now nowMillis g =
     (if now < 1451606400 then (False, g)
      else (True, scheduleNextNightlySync now
                    (g\<lparr>rtcBaseTime := now, rtcBaseMillis := nowMillis\<rparr>)))"

definition updateTimeFromRtc :: "time_t \<Rightarrow> ulong \<Rightarrow> globals \<Rightarrow> globals" where
  "updateTimeFromRtc sysTime nowMillis g =
     (let nowUtc = getCurrentRtcTime sysTime nowMillis g;
          nowDisp = getDisplayTime nowUtc
      in case gmtime nowDisp of
           None \<Rightarrow> g
         | Some ti \<Rightarrow> g\<lparr>t_sec := tm_sec ti, t_min := tm_min ti, t_hour := tm_hour ti\<rparr>)"

section \<open>Connectivity supervisor\<close>

text \<open>\<open>connected\<close> is the outcome of \<open>WiFi.status() == WL_CONNECTED\<close> at the call.\<close>

definition superviseWiFi :: "ulong \<Rightarrow> bool \<Rightarrow> globals \<Rightarrow> globals" where
  "superviseWiFi nowMs connected g =
     (if \<not> connected then
        (let g1 = (if wifiLostSinceMs g = 0 then g\<lparr>wifiLostSinceMs := nowMs\<rparr> else g)
         in if (nowMs - wifiLostSinceMs g1) > wifiLostTimeoutMs
            then g1\<lparr>wifiLostSinceMs := 0, myState := STATE_WIFI_CONFIG\<rparr>
            else g1)
      else g\<lparr>wifiLostSinceMs := 0\<rparr>)"

section \<open>Session state machine\<close>

text \<open>
  One pass of \<open>loop\<close> on the globals above. The brightness update at the top of the pass,
  the drawing of the LEDs and the calls that start a connection or a time request act on the
  hardware and the network only and are left out; the blocking \<open>setupWifi\<close> is a step of
  the pass in \<open>STATE_WIFI_CONFIG\<close>.

  What the platform returns during one pass of \<open>loop\<close>, one field for each call site:
  \<open>millis()\<close> at the top of \<open>loop\<close>, in the state's branch, in \<open>syncRtcFromSystemTime\<close>,
  in \<open>getCurrentRtcTime\<close> called from the branch and from \<open>updateTimeFromRtc\<close>;
  \<open>time(nullptr)\<close> in \<open>isTimeValid\<close>, in \<open>syncRtcFromSystemTime\<close> and in the two calls of
  \<open>getCurrentRtcTime\<close>; and the connection status seen by \<open>superviseWiFi\<close>.
\<close>

record platform =
  millis_loop :: ulong
  millis_state :: ulong
  millis_sync :: ulong
  millis_rtc :: ulong
  millis_render :: ulong
  time_valid :: time_t
  time_sync :: time_t
  time_rtc :: time_t
  time_render :: time_t
  wifi_connected :: bool

definition loop :: "platform \<Rightarrow> globals \<Rightarrow> globals" where
  "loop p g =
     (let nowMs = millis_loop p
      in case myState g of
           STATE_WIFI_CONFIG \<Rightarrow>
             g\<lparr>ntpSyncInProgress := True, ntpSyncStartMs := millis_state p,
               myState := STATE_WAIT_FOR_TIME\<rparr>
         | STATE_WAIT_FOR_TIME \<Rightarrow>
             if ntpSyncInProgress g \<and> (millis_state p - ntpSyncStartMs g) > ntpWaitTimeoutMs
             then g\<lparr>ntpSyncInProgress := False, myState := STATE_WIFI_CONFIG\<rparr>
             else if isTimeValid (time_valid p) then
               (case syncRtcFromSystemTime (time_sync p) (millis_sync p) g of
                  (False, g1) \<Rightarrow> g1\<lparr>ntpSyncInProgress := False, myState := STATE_WIFI_CONFIG\<rparr>
                | (True, g1) \<Rightarrow>
                    superviseWiFi nowMs (wifi_connected p)
                      (g1\<lparr>ntpSyncInProgress := False, myState := STATE_SHOW_CLOCK\<rparr>))
             else superviseWiFi nowMs (wifi_connected p) g
         | STATE_SHOW_CLOCK \<Rightarrow>
             (let g1 = (if (nowMs - lastRenderMillis g) \<ge> renderIntervalMs
                        then updateTimeFromRtc (time_render p) (millis_render p)
                               (g\<lparr>lastRenderMillis := nowMs\<rparr>)
                        else g);
                  currentUtc = getCurrentRtcTime (time_rtc p) (millis_rtc p) g1;
                  (due, g2) = shouldStartNightlySync currentUtc g1;
                  g3 = (if due
                        then g2\<lparr>ntpSyncInProgress := True, ntpSyncStartMs := millis_state p,
                                myState := STATE_WAIT_FOR_TIME\<rparr>
                        else g2)
              in superviseWiFi nowMs (wifi_connected p) g3))"

section \<open>Facts about the scheduler's scan\<close>

lemma c_rem_60_bounds: "- 60 < c_rem a 60" "c_rem a 60 < 60"
proof -
  have m: "0 \<le> \<bar>a\<bar> mod 60" "\<bar>a\<bar> mod 60 < 60" by simp_all
  show "- 60 < c_rem a 60" "c_rem a 60 < 60"
    using m by (auto simp: c_rem_def sgn_if)
qed

lemma c_rem_nonneg: "0 \<le> a \<Longrightarrow> c_rem a b = a mod \<bar>b\<bar>"
  by (simp add: c_rem_def sgn_if)

lemma c_rem_60_dvd: "60 dvd (a - c_rem a 60)"
proof (cases "0 \<le> a")
  case True
  then show ?thesis by (simp add: c_rem_nonneg dvd_eq_mod_eq_0 minus_mod_eq_mult_div)
next
  case False
  then have "a - c_rem a 60 = - (\<bar>a\<bar> - \<bar>a\<bar> mod 60)" by (simp add: c_rem_def sgn_if)
  also have "\<dots> = - (60 * (\<bar>a\<bar> div 60))" by (simp add: minus_mod_eq_mult_div)
  finally show ?thesis by simp
qed

lemma scanFrom_Some:
  "scanFrom i startUtc = Some x \<Longrightarrow>
     \<exists>j. i \<le> j \<and> j < maxMinutes \<and> x = startUtc + j * 60 \<and> displayMatches x
         \<and> (\<forall>k. i \<le> k \<and> k < j \<longrightarrow> \<not> displayMatches (startUtc + k * 60))"
proof (induction i startUtc rule: scanFrom.induct)
  case (1 i startUtc)
  show ?case
  proof (cases "i < maxMinutes")
    case False
    with "1.prems" show ?thesis by (simp add: scanFrom.simps [of i startUtc])
  next
    case lt: True
    show ?thesis
    proof (cases "displayMatches (startUtc + i * 60)")
      case True
      with lt "1.prems" have "x = startUtc + i * 60"
        by (auto simp: scanFrom.simps [of i startUtc] displayMatches_def Let_def split: option.splits if_splits)
      with lt True show ?thesis by (intro exI [of _ i]) auto
    next
      case False
      with lt "1.prems" have r: "scanFrom (i + 1) startUtc = Some x"
        by (auto simp: scanFrom.simps [of i startUtc] displayMatches_def Let_def split: option.splits if_splits)
      have "\<exists>j. i + 1 \<le> j \<and> j < maxMinutes \<and> x = startUtc + j * 60 \<and> displayMatches x
         \<and> (\<forall>k. i + 1 \<le> k \<and> k < j \<longrightarrow> \<not> displayMatches (startUtc + k * 60))"
      proof (cases "gmtime (getDisplayTime (startUtc + i * 60))")
        case None
        from "1.IH"(1) [OF lt refl refl None r] show ?thesis .
      next
        case (Some d)
        with False have nm: "\<not> (tm_hour d = ntpSyncHour \<and> tm_min d = ntpSyncMinute \<and> tm_sec d = 0)"
          by (simp add: displayMatches_def)
        from "1.IH"(2) [OF lt refl refl Some nm r] show ?thesis .
      qed
      then obtain j where j: "i + 1 \<le> j" "j < maxMinutes" "x = startUtc + j * 60" "displayMatches x"
        "\<forall>k. i + 1 \<le> k \<and> k < j \<longrightarrow> \<not> displayMatches (startUtc + k * 60)" by blast
      have "\<forall>k. i \<le> k \<and> k < j \<longrightarrow> \<not> displayMatches (startUtc + k * 60)"
      proof (intro allI impI)
        fix k assume k: "i \<le> k \<and> k < j"
        show "\<not> displayMatches (startUtc + k * 60)"
        proof (cases "k = i")
          case True with False show ?thesis by simp
        next
          case False with k j(5) show ?thesis by simp
        qed
      qed
      with j show ?thesis by (intro exI [of _ j]) auto
    qed
  qed
qed

lemma scanFrom_None:
  "scanFrom i startUtc = None \<Longrightarrow> i \<le> k \<Longrightarrow> k < maxMinutes \<Longrightarrow>
     \<not> displayMatches (startUtc + k * 60)"
proof (induction i startUtc rule: scanFrom.induct)
  case (1 i startUtc)
  from "1.prems" have lt: "i < maxMinutes" by simp
  note unf = scanFrom.simps [of i startUtc]
  show ?case
  proof (cases "gmtime (getDisplayTime (startUtc + i * 60))")
    case None
    with lt "1.prems"(1) have r: "scanFrom (i + 1) startUtc = None" by (simp add: unf Let_def)
    show ?thesis
    proof (cases "k = i")
      case True with None show ?thesis by (simp add: displayMatches_def)
    next
      case False
      with "1.prems" have "i + 1 \<le> k" by simp
      from "1.IH"(1) [OF lt refl refl None r this "1.prems"(3)] show ?thesis .
    qed
  next
    case (Some d)
    with lt "1.prems"(1) have nm: "\<not> (tm_hour d = ntpSyncHour \<and> tm_min d = ntpSyncMinute \<and> tm_sec d = 0)"
      and r: "scanFrom (i + 1) startUtc = None"
      by (auto simp: unf Let_def split: if_splits)
    show ?thesis
    proof (cases "k = i")
      case True with Some nm show ?thesis by (simp add: displayMatches_def)
    next
      case False
      with "1.prems" have "i + 1 \<le> k" by simp
      from "1.IH"(2) [OF lt refl refl Some nm r this "1.prems"(3)] show ?thesis .
    qed
  qed
qed

lemma schedule_later: "currentUtc < nextNtpSyncEpoch (scheduleNextNightlySync currentUtc g)"
proof (cases "scanFrom 0 (currentUtc - c_rem currentUtc 60 + 60)")
  case None
  then show ?thesis by (simp add: scheduleNextNightlySync_def)
next
  case (Some x)
  from scanFrom_Some [OF Some] obtain j where "0 \<le> j" "x = currentUtc - c_rem currentUtc 60 + 60 + j * 60"
    by blast
  with c_rem_60_bounds(2) [of currentUtc] have "currentUtc < x" by simp
  with Some show ?thesis by (simp add: scheduleNextNightlySync_def)
qed

section \<open>The time of day in the fields of \<open>gmtime\<close>\<close>

lemma div_eqI:
  fixes a b k r :: int
  assumes "a = b * k + r" "0 \<le> r" "r < b"
  shows "a div b = k"
  using assms by (simp add: div_pos_pos_trivial)

lemma mod_eqI:
  fixes a b k r :: int
  assumes "a = b * k + r" "0 \<le> r" "r < b"
  shows "a mod b = r"
  using assms by (simp add: mod_pos_pos_trivial)

lemma gmtime_hms:
  assumes "gmtime t = Some d"
  shows "tm_hour d = (t mod 86400) div 3600" "tm_min d = ((t mod 86400) mod 3600) div 60"
    "tm_sec d = (t mod 86400) mod 60"
  using assms by (auto simp: gmtime_def Let_def split: prod.splits)

lemma gmtime_date:
  assumes "gmtime t = Some d" "civil_from_days (t div 86400) = (y, m, dd)"
  shows "tm_year d = y - 1900" "tm_mon d = m - 1" "tm_mday d = dd"
  using assms by (auto simp: gmtime_def Let_def split: prod.splits)

lemma gmtime_total: "\<exists>d. gmtime t = Some d"
  by (simp add: gmtime_def Let_def split: prod.splits)

lemma hms_0305:
  fixes r :: int
  assumes "0 \<le> r" "r < 86400"
  shows "(r div 3600 = 3 \<and> (r mod 3600) div 60 = 5 \<and> r mod 60 = 0) = (r = 11100)"
proof
  assume a: "r div 3600 = 3 \<and> (r mod 3600) div 60 = 5 \<and> r mod 60 = 0"
  have 1: "r = 3600 * (r div 3600) + r mod 3600" by simp
  have 2: "r mod 3600 = 60 * ((r mod 3600) div 60) + (r mod 3600) mod 60" by simp
  have 3: "(r mod 3600) mod 60 = r mod 60" by (simp add: mod_mod_cancel)
  from a 1 2 3 show "r = 11100" by linarith
next
  assume "r = 11100"
  then show "r div 3600 = 3 \<and> (r mod 3600) div 60 = 5 \<and> r mod 60 = 0" by simp
qed

lemma displayMatches_iff: "displayMatches x = (getDisplayTime x mod 86400 = 11100)"
proof -
  obtain d where d: "gmtime (getDisplayTime x) = Some d" using gmtime_total by blast
  have r: "0 \<le> getDisplayTime x mod 86400" "getDisplayTime x mod 86400 < 86400" by simp_all
  show ?thesis
    using hms_0305 [OF r] gmtime_hms [OF d]
    by (simp add: displayMatches_def d ntpSyncHour_def ntpSyncMinute_def)
qed

section \<open>The year within an era of 400 years\<close>

text \<open>
  A day of an era is \<open>36524 * c + 1461 * q + 365 * yy + d\<close>: \<open>c\<close> whole centuries,
  \<open>q\<close> whole four-year cycles, \<open>yy\<close> whole years and \<open>d\<close> days, the day 365 existing only
  in a year that ends with a leap day. On this form the year formula of \<open>era_year\<close> can be
  checked by hand.
\<close>

lemma era_day_div_1460:
  fixes c q yy d :: int
  assumes "0 \<le> c" "c \<le> 3" "0 \<le> q" "q \<le> 24" "0 \<le> yy" "yy \<le> 3" "0 \<le> d" "d \<le> 365"
  shows "(36524 * c + 1461 * q + 365 * yy + d) div 1460
           = 25 * c + q + (if 24 * c + q + 365 * yy + d \<ge> 1460 then 1 else 0)"
proof (cases "24 * c + q + 365 * yy + d \<ge> 1460")
  case True
  have "(36524 * c + 1461 * q + 365 * yy + d) div 1460 = 25 * c + q + 1"
    by (rule div_eqI [where r = "24 * c + q + 365 * yy + d - 1460"]) (use assms True in simp_all)
  with True show ?thesis by simp
next
  case False
  have "(36524 * c + 1461 * q + 365 * yy + d) div 1460 = 25 * c + q"
    by (rule div_eqI [where r = "24 * c + q + 365 * yy + d"]) (use assms False in simp_all)
  with False show ?thesis by simp
qed

lemma era_day_centuries:
  fixes c q yy d :: int
  assumes "0 \<le> c" "c \<le> 3" "0 \<le> q" "q \<le> 24" "0 \<le> yy" "yy \<le> 3" "0 \<le> d" "d \<le> 365"
    and "d = 365 \<Longrightarrow> yy = 3 \<and> (q < 24 \<or> c = 3)"
  shows "(36524 * c + 1461 * q + 365 * yy + d) div 36524
           - (36524 * c + 1461 * q + 365 * yy + d) div 146096 = c"
proof (cases "1461 * q + 365 * yy + d < 36524")
  case True
  have 1: "(36524 * c + 1461 * q + 365 * yy + d) div 36524 = c"
    by (rule div_eqI [where r = "1461 * q + 365 * yy + d"]) (use assms True in simp_all)
  have 2: "(36524 * c + 1461 * q + 365 * yy + d) div 146096 = 0"
    by (rule div_eqI [where r = "36524 * c + 1461 * q + 365 * yy + d"]) (use assms True in simp_all)
  show ?thesis using 1 2 by simp
next
  case False
  with assms have v: "q = 24" "yy = 3" "d = 365" by simp_all
  with assms have "c = 3" by simp
  with v show ?thesis by simp
qed

lemma era_year_decomp:
  fixes c q yy d :: int
  assumes "0 \<le> c" "c \<le> 3" "0 \<le> q" "q \<le> 24" "0 \<le> yy" "yy \<le> 3" "0 \<le> d" "d \<le> 365"
    and "d = 365 \<Longrightarrow> yy = 3 \<and> (q < 24 \<or> c = 3)"
  shows "era_year (36524 * c + 1461 * q + 365 * yy + d) = 100 * c + 4 * q + yy"
proof -
  let ?e = "36524 * c + 1461 * q + 365 * yy + d"
  let ?b = "if 24 * c + q + 365 * yy + d \<ge> 1460 then 1 else (0::int)"
  have a: "?e div 1460 = 25 * c + q + ?b"
    using assms by (intro era_day_div_1460) auto
  have b: "?e div 36524 - ?e div 146096 = c" using assms by (intro era_day_centuries) auto
  have n: "?e - ?e div 1460 + ?e div 36524 - ?e div 146096
             = 365 * (100 * c + 4 * q + yy) + (d - ?b)"
    using a b by simp
  have lo: "0 \<le> d - ?b" using assms by simp
  have hi: "d - ?b < 365"
  proof (cases "d = 365")
    case True
    with assms have "yy = 3" by simp
    with True assms show ?thesis by simp
  next
    case False
    with assms show ?thesis by simp
  qed
  show ?thesis unfolding era_year_def
    by (rule div_eqI [where r = "d - ?b"]) (use n lo hi in simp_all)
qed

lemma year_day_decomp:
  fixes c q yy d :: int
  assumes "0 \<le> c" "c \<le> 3" "0 \<le> q" "q \<le> 24" "0 \<le> yy" "yy \<le> 3" "0 \<le> d" "d \<le> 365"
    and "d = 365 \<Longrightarrow> yy = 3 \<and> (q < 24 \<or> c = 3)"
  shows "year_day (36524 * c + 1461 * q + 365 * yy + d) = d"
proof -
  have y: "era_year (36524 * c + 1461 * q + 365 * yy + d) = 100 * c + 4 * q + yy"
    using assms by (intro era_year_decomp) auto
  have 4: "(100 * c + 4 * q + yy) div 4 = 25 * c + q"
    by (rule div_eqI [where r = yy]) (use assms in simp_all)
  have 100: "(100 * c + 4 * q + yy) div 100 = c"
    by (rule div_eqI [where r = "4 * q + yy"]) (use assms in simp_all)
  show ?thesis by (simp add: year_day_def y 4 100)
qed

lemma era_decomp_exists:
  fixes e :: int
  assumes "0 \<le> e" "e < 146097"
  shows "\<exists>c q yy d. 0 \<le> c \<and> c \<le> 3 \<and> 0 \<le> q \<and> q \<le> 24 \<and> 0 \<le> yy \<and> yy \<le> 3 \<and> 0 \<le> d \<and> d \<le> 365
           \<and> (d = 365 \<longrightarrow> yy = 3 \<and> (q < 24 \<or> c = 3))
           \<and> e = 36524 * c + 1461 * q + 365 * yy + d"
proof -
  define c where "c = min 3 (e div 36524)"
  define r where "r = e - 36524 * c"
  define q where "q = r div 1461"
  define r2 where "r2 = r mod 1461"
  define yy where "yy = min 3 (r2 div 365)"
  define d where "d = r2 - 365 * yy"
  have e0: "0 \<le> e div 36524" using assms by simp
  have e4: "e div 36524 \<le> 4" using assms by simp
  have em: "e = 36524 * (e div 36524) + e mod 36524" by simp
  have emb: "0 \<le> e mod 36524" "e mod 36524 < 36524" by simp_all
  have c: "0 \<le> c" "c \<le> 3" using e0 by (simp_all add: c_def)
  have r: "0 \<le> r" "r \<le> 36524" "r = 36524 \<longrightarrow> c = 3"
    using em emb e4 assms unfolding r_def c_def min_def by (auto split: if_splits)
  have q: "0 \<le> q" "q \<le> 24" using r by (simp_all add: q_def)
  have rq: "r = 1461 * q + r2" by (simp add: q_def r2_def)
  have r2: "0 \<le> r2" "r2 \<le> 1460" by (simp_all add: r2_def)
  have r2d: "0 \<le> r2 div 365" "r2 div 365 \<le> 4" using r2 by simp_all
  have r2m: "r2 = 365 * (r2 div 365) + r2 mod 365" by simp
  have r2mb: "0 \<le> r2 mod 365" "r2 mod 365 < 365" by simp_all
  have yy: "0 \<le> yy" "yy \<le> 3" using r2d by (simp_all add: yy_def)
  have d: "0 \<le> d" "d \<le> 365" "d = 365 \<longrightarrow> yy = 3 \<and> r2 = 1460"
    using r2m r2mb r2d r2 unfolding d_def yy_def min_def by (auto split: if_splits)
  have l: "d = 365 \<longrightarrow> yy = 3 \<and> (q < 24 \<or> c = 3)"
  proof
    assume "d = 365"
    with d have "yy = 3" "r2 = 1460" by simp_all
    with rq r q show "yy = 3 \<and> (q < 24 \<or> c = 3)" by (cases "q = 24") auto
  qed
  have "e = 36524 * c + 1461 * q + 365 * yy + d" using rq by (simp add: r_def d_def)
  with c q yy d(1,2) l show ?thesis by blast
qed

lemma era_year_day_bounds:
  fixes e :: int
  assumes "0 \<le> e" "e < 146097"
  shows "0 \<le> era_year e" "era_year e \<le> 399" "0 \<le> year_day e" "year_day e \<le> 365"
    "year_day e = 365 \<longrightarrow> is_leap (era_year e + 1)"
    "e = 365 * era_year e + era_year e div 4 - era_year e div 100 + year_day e"
proof -
  from era_decomp_exists [OF assms] obtain c q yy d where
    b: "0 \<le> c" "c \<le> 3" "0 \<le> q" "q \<le> 24" "0 \<le> yy" "yy \<le> 3" "0 \<le> d" "d \<le> 365"
    and l: "d = 365 \<longrightarrow> yy = 3 \<and> (q < 24 \<or> c = 3)"
    and e: "e = 36524 * c + 1461 * q + 365 * yy + d" by blast
  have y: "era_year e = 100 * c + 4 * q + yy"
    unfolding e using b l by (intro era_year_decomp) auto
  have d: "year_day e = d"
    unfolding e using b l by (intro year_day_decomp) auto
  show "0 \<le> era_year e" "era_year e \<le> 399" "0 \<le> year_day e" "year_day e \<le> 365"
    using b by (simp_all add: y d)
  show "e = 365 * era_year e + era_year e div 4 - era_year e div 100 + year_day e"
    by (simp add: year_day_def Let_def)
  show "year_day e = 365 \<longrightarrow> is_leap (era_year e + 1)"
  proof
    assume "year_day e = 365"
    with d l have v: "yy = 3" "q < 24 \<or> c = 3" by simp_all
    have m4: "(100 * c + 4 * q + yy + 1) mod 4 = 0"
      by (rule mod_eqI [where k = "25 * c + q + 1"]) (use v in simp_all)
    show "is_leap (era_year e + 1)"
    proof (cases "q < 24")
      case True
      have m100: "(100 * c + 4 * q + yy + 1) mod 100 = 4 * q + 4"
        by (rule mod_eqI [where k = c]) (use v True b in simp_all)
      have m400: "(100 * c + 4 * q + yy + 1) mod 400 = 100 * c + 4 * q + 4"
        by (rule mod_eqI [where k = 0]) (use v True b in simp_all)
      show ?thesis using m4 m100 m400 b by (simp add: is_leap_def y)
    next
      case False
      with v b have "c = 3" "q = 24" by simp_all
      with v show ?thesis by (simp add: is_leap_def y)
    qed
  qed
qed

lemma era_year_day_unique:
  fixes y k :: int
  assumes "0 \<le> y" "y \<le> 399" "0 \<le> k" "k \<le> 365" "k = 365 \<longrightarrow> is_leap (y + 1)"
  shows "era_year (365 * y + y div 4 - y div 100 + k) = y"
    "year_day (365 * y + y div 4 - y div 100 + k) = k"
    "0 \<le> 365 * y + y div 4 - y div 100 + k" "365 * y + y div 4 - y div 100 + k < 146097"
proof -
  define c where "c = y div 100"
  define q where "q = (y mod 100) div 4"
  define yy where "yy = y mod 4"
  have c: "0 \<le> c" "c \<le> 3" using assms by (simp_all add: c_def)
  have q: "0 \<le> q" "q \<le> 24" by (simp_all add: q_def)
  have yy: "0 \<le> yy" "yy \<le> 3" by (simp_all add: yy_def)
  have "y mod 100 mod 4 = y mod 4" by (simp add: mod_mod_cancel)
  then have ym: "y mod 100 = 4 * q + yy" unfolding q_def yy_def by (metis mult_div_mod_eq)
  have y: "y = 100 * c + 4 * q + yy" unfolding c_def using ym by (metis mult_div_mod_eq add.assoc)
  have 4: "y div 4 = 25 * c + q"
    by (rule div_eqI [where r = yy]) (use y yy in simp_all)
  have 100: "y div 100 = c" by (simp add: c_def)
  have e: "365 * y + y div 4 - y div 100 + k = 36524 * c + 1461 * q + 365 * yy + k"
    unfolding 4 100 by (subst y) simp
  have l: "k = 365 \<Longrightarrow> yy = 3 \<and> (q < 24 \<or> c = 3)"
  proof -
    assume "k = 365"
    with assms have lp: "is_leap (y + 1)" by simp
    have n4: "(y + 1) mod 4 = 0" using lp by (auto simp: is_leap_def split: if_splits) 
    have "yy = 3"
    proof (rule ccontr)
      assume "yy \<noteq> 3"
      with yy have lt: "yy + 1 < 4" by simp
      have "(y + 1) mod 4 = yy + 1"
        by (rule mod_eqI [where k = "y div 4"]) (use lt yy in \<open>simp_all add: yy_def\<close>)
      with n4 yy show False by simp
    qed
    moreover have "q < 24 \<or> c = 3"
    proof (cases "q < 24")
      case True then show ?thesis by simp
    next
      case False
      with q have q24: "q = 24" by simp
      with \<open>yy = 3\<close> y have y1: "y + 1 = 100 * (c + 1)" by simp
      then have "(y + 1) mod 100 = 0" by simp
      with lp have "(y + 1) mod 400 = 0" by (auto simp: is_leap_def split: if_splits)
      then have z: "(100 * (c + 1)) mod 400 = 0" by (simp add: y1)
      show ?thesis
      proof (rule ccontr)
        assume "\<not> (q < 24 \<or> c = 3)"
        with c have lt: "c < 3" by simp
        have "(100 * (c + 1)) mod 400 = 100 * (c + 1)"
          by (rule mod_eqI [where k = 0]) (use lt c in simp_all)
        with z c show False by simp
      qed
    qed
    ultimately show ?thesis by simp
  qed
  show "era_year (365 * y + y div 4 - y div 100 + k) = y"
    unfolding e using c q yy assms l by (subst y) (intro era_year_decomp, auto)
  show "year_day (365 * y + y div 4 - y div 100 + k) = k"
    unfolding e using c q yy assms l by (intro year_day_decomp) auto
  show "0 \<le> 365 * y + y div 4 - y div 100 + k" unfolding e using c q yy assms by simp
  show "365 * y + y div 4 - y div 100 + k < 146097"
  proof (cases "k = 365")
    case True
    from l [OF True] have "yy = 3" "q < 24 \<or> c = 3" by simp_all
    then show ?thesis unfolding e using c q yy True by auto
  next
    case False
    then show ?thesis unfolding e using c q yy assms by simp
  qed
qed

section \<open>Days since the epoch and civil dates\<close>

lemma days_from_civil_march_based:
  "days_from_civil y m d
     = days_from_civil (if m \<le> 2 then y - 1 else y) 3 1
       + (153 * (if m > 2 then m - 3 else m + 9) + 2) div 5 + d - 1"
  by (simp add: days_from_civil_def Let_def)

lemma days_from_civil_march_closed:
  "days_from_civil y 3 1 = 365 * y + y div 4 - y div 100 + y div 400 - 719468"
proof -
  define E where "E = y div 400"
  define yoe where "yoe = y mod 400"
  have y: "y = 400 * E + yoe" by (simp add: E_def yoe_def)
  have 4: "y div 4 = 100 * E + yoe div 4" unfolding y by simp
  have 100: "y div 100 = 4 * E + yoe div 100" unfolding y by simp
  have 400: "y div 400 = E" by (simp add: E_def)
  have yy: "365 * y = 146000 * E + 365 * yoe" unfolding y by simp
  have lhs: "days_from_civil y 3 1 = E * 146097 + (yoe * 365 + yoe div 4 - yoe div 100) - 719468"
    by (simp add: days_from_civil_def Let_def E_def yoe_def)
  show ?thesis unfolding lhs 4 100 400 yy by simp
qed

lemma div_succ:
  fixes y n :: int
  assumes "0 < n"
  shows "(y + 1) div n = y div n + (if (y + 1) mod n = 0 then 1 else 0)"
proof -
  have y: "y = n * (y div n) + y mod n" by simp
  have b: "0 \<le> y mod n" "y mod n < n" using assms by simp_all
  show ?thesis
  proof (cases "y mod n = n - 1")
    case True
    have e: "y + 1 = n * (y div n + 1) + 0"
    proof -
      have "y + 1 = n * (y div n) + y mod n + 1" using y by simp
      also have "\<dots> = n * (y div n + 1)" unfolding True by (simp add: algebra_simps)
      finally show ?thesis by simp
    qed
    have 1: "(y + 1) div n = y div n + 1" by (rule div_eqI [OF e]) (use assms in simp_all)
    have 2: "(y + 1) mod n = 0" by (rule mod_eqI [OF e]) (use assms in simp_all)
    show ?thesis by (simp add: 1 2)
  next
    case False
    have e: "y + 1 = n * (y div n) + (y mod n + 1)" using y by simp
    have 1: "(y + 1) div n = y div n" by (rule div_eqI [OF e]) (use b False in simp_all)
    have 2: "(y + 1) mod n = y mod n + 1" by (rule mod_eqI [OF e]) (use b False in simp_all)
    show ?thesis using b by (simp add: 1 2)
  qed
qed

lemma march_first_step:
  "days_from_civil (y + 1) 3 1 = days_from_civil y 3 1 + (if is_leap (y + 1) then 366 else 365)"
proof -
  have "(100::int) dvd 400" "(4::int) dvd 100" by simp_all
  then have d400: "(y + 1) mod 400 = 0 \<Longrightarrow> (y + 1) mod 100 = 0"
    and d100: "(y + 1) mod 100 = 0 \<Longrightarrow> (y + 1) mod 4 = 0"
    by (auto simp: mod_eq_0_iff_dvd elim: dvd_trans)
  have 4: "(y + 1) div 4 = y div 4 + (if (y + 1) mod 4 = 0 then 1 else 0)"
    by (rule div_succ) simp
  have 100: "(y + 1) div 100 = y div 100 + (if (y + 1) mod 100 = 0 then 1 else 0)"
    by (rule div_succ) simp
  have 400: "(y + 1) div 400 = y div 400 + (if (y + 1) mod 400 = 0 then 1 else 0)"
    by (rule div_succ) simp
  show ?thesis
  proof (cases "(y + 1) mod 400 = 0")
    case True
    with d400 d100 have "(y + 1) mod 100 = 0" "(y + 1) mod 4 = 0" by simp_all
    with True show ?thesis
      unfolding days_from_civil_march_closed 4 100 400 by (simp add: is_leap_def)
  next
    case n400: False
    show ?thesis
    proof (cases "(y + 1) mod 100 = 0")
      case True
      with d100 have "(y + 1) mod 4 = 0" by simp
      with True n400 show ?thesis
        unfolding days_from_civil_march_closed 4 100 400 by (simp add: is_leap_def)
    next
      case False
      with n400 show ?thesis
        unfolding days_from_civil_march_closed 4 100 400 by (simp add: is_leap_def)
    qed
  qed
qed

lemma civil_from_days_props:
  assumes "civil_from_days z = (y, m, d)"
  defines "y' \<equiv> (if m \<le> 2 then y - 1 else y)"
    and "mp \<equiv> (if m > 2 then m - 3 else m + 9)"
  shows "\<exists>yd. 0 \<le> yd \<and> yd \<le> 365 \<and> (yd = 365 \<longrightarrow> is_leap (y' + 1))
            \<and> z = days_from_civil y' 3 1 + yd
            \<and> mp = (5 * yd + 2) div 153
            \<and> d = yd - (153 * mp + 2) div 5 + 1"
    and "0 \<le> mp" "mp \<le> 11" "1 \<le> m" "m \<le> 12"
proof -
  define days where "days = z + 719468"
  define era where "era = days div 146097"
  define e where "e = days mod 146097"
  define ey where "ey = era_year e"
  define yd where "yd = year_day e"
  define mp0 where "mp0 = (5 * yd + 2) div 153"
  have eb: "0 \<le> e" "e < 146097" by (simp_all add: e_def)
  note B = era_year_day_bounds [OF eb, folded ey_def yd_def]
  have mp0: "0 \<le> mp0" "mp0 \<le> 11" using B(3,4) unfolding mp0_def by simp_all
  have c: "civil_from_days z
      = (ey + era * 400 + (if (if mp0 < 10 then mp0 + 3 else mp0 - 9) \<le> 2 then 1 else 0),
         (if mp0 < 10 then mp0 + 3 else mp0 - 9),
         yd - (153 * mp0 + 2) div 5 + 1)"
    by (simp add: civil_from_days_def Let_def days_def era_def e_def ey_def yd_def mp0_def)
  from assms(1) c have m: "m = (if mp0 < 10 then mp0 + 3 else mp0 - 9)"
    and yv: "y = ey + era * 400 + (if m \<le> 2 then 1 else 0)"
    and d: "d = yd - (153 * mp0 + 2) div 5 + 1" by auto
  have mpe: "mp = mp0" using m mp0 by (auto simp: mp_def split: if_splits)
  show "0 \<le> mp" "mp \<le> 11" using mp0 mpe by simp_all
  show "1 \<le> m" "m \<le> 12" using m mp0 by (auto split: if_splits)
  have y': "y' = 400 * era + ey" using yv by (simp add: y'_def)
  have dv: "y' div 400 = era" by (rule div_eqI [where r = ey]) (use y' B in simp_all)
  have md: "y' mod 400 = ey" by (rule mod_eqI [where k = era]) (use y' B in simp_all)
  have m1: "days_from_civil y' 3 1 = era * 146097 + (ey * 365 + ey div 4 - ey div 100) - 719468"
    by (simp add: days_from_civil_def dv md)
  have "days = 146097 * era + e" by (simp add: era_def e_def)
  with B(6) have z: "z = days_from_civil y' 3 1 + yd" by (simp add: m1 days_def)
  have lp: "yd = 365 \<longrightarrow> is_leap (y' + 1)"
  proof
    assume "yd = 365"
    with B(5) have l: "is_leap (ey + 1)" by simp
    have "y' + 1 = 400 * era + (ey + 1)" unfolding y' by simp
    then have "(y' + 1) mod 400 = (ey + 1) mod 400" by (simp only: mod_mult_self4)
    moreover have "(y' + 1) mod 100 = (ey + 1) mod 100"
    proof -
      have "y' + 1 = 100 * (4 * era) + (ey + 1)" unfolding y' by simp
      then show ?thesis by (simp only: mod_mult_self4)
    qed
    moreover have "(y' + 1) mod 4 = (ey + 1) mod 4"
    proof -
      have "y' + 1 = 4 * (100 * era) + (ey + 1)" unfolding y' by simp
      then show ?thesis by (simp only: mod_mult_self4)
    qed
    ultimately show "is_leap (y' + 1)" using l unfolding is_leap_def by (simp only:)
  qed
  show "\<exists>yd. 0 \<le> yd \<and> yd \<le> 365 \<and> (yd = 365 \<longrightarrow> is_leap (y' + 1))
            \<and> z = days_from_civil y' 3 1 + yd
            \<and> mp = (5 * yd + 2) div 153
            \<and> d = yd - (153 * mp + 2) div 5 + 1"
    using B(3,4) lp z mpe d by (intro exI [of _ yd]) (simp add: mp0_def)
qed

lemma days_from_civil_inverse:
  assumes "civil_from_days z = (y, m, d)"
  shows "days_from_civil y m d = z"
proof -
  from civil_from_days_props(1) [OF assms] obtain yd where
    "z = days_from_civil (if m \<le> 2 then y - 1 else y) 3 1 + yd"
    "d = yd - (153 * (if m > 2 then m - 3 else m + 9) + 2) div 5 + 1" by blast
  then show ?thesis by (subst days_from_civil_march_based) simp
qed

lemma is_leap_shift: "is_leap (400 * E + a) = is_leap a"
proof -
  have 400: "(400 * E + a) mod 400 = a mod 400" by (simp only: mod_mult_self4)
  have "400 * E + a = 100 * (4 * E) + a" by simp
  then have 100: "(400 * E + a) mod 100 = a mod 100" by (simp only: mod_mult_self4)
  have "400 * E + a = 4 * (100 * E) + a" by simp
  then have 4: "(400 * E + a) mod 4 = a mod 4" by (simp only: mod_mult_self4)
  show ?thesis unfolding is_leap_def 400 100 4 ..
qed

lemma month_day_of_year:
  fixes m d :: int
  assumes "1 \<le> m" "m \<le> 12" "1 \<le> d" "d \<le> days_in_month y m"
  defines "mp \<equiv> (if m > 2 then m - 3 else m + 9)"
  defines "k \<equiv> (153 * mp + 2) div 5 + d - 1"
  shows "0 \<le> k" "k \<le> 365" "k = 365 \<longrightarrow> m = 2 \<and> is_leap y" "(5 * k + 2) div 153 = mp"
proof -
  from assms(1,2) have "m = 1 \<or> m = 2 \<or> m = 3 \<or> m = 4 \<or> m = 5 \<or> m = 6 \<or> m = 7
    \<or> m = 8 \<or> m = 9 \<or> m = 10 \<or> m = 11 \<or> m = 12" by arith
  then consider "m = 1" | "m = 2" | "m = 3" | "m = 4" | "m = 5" | "m = 6" | "m = 7"
    | "m = 8" | "m = 9" | "m = 10" | "m = 11" | "m = 12" by blast
  then have "0 \<le> k \<and> k \<le> 365 \<and> (k = 365 \<longrightarrow> m = 2 \<and> is_leap y) \<and> (5 * k + 2) div 153 = mp"
  proof cases
    case 1
    with assms(3,4) have k: "k = 305 + d" "d \<le> 31" by (simp_all add: k_def mp_def days_in_month_def)
    have "(5 * k + 2) div 153 = 10" by (rule div_eqI [where r = "5 * d - 3"]) (use k assms(3) in simp_all)
    with k assms(3) 1 show ?thesis by (simp add: mp_def)
  next
    case 2
    with assms(3,4) have k: "k = 336 + d" "d \<le> 29" "d = 29 \<longrightarrow> is_leap y"
      by (simp_all add: k_def mp_def days_in_month_def split: if_splits)
    have "(5 * k + 2) div 153 = 11" by (rule div_eqI [where r = "5 * d - 1"]) (use k assms(3) in simp_all)
    with k assms(3) 2 show ?thesis by (simp add: mp_def)
  next
    case 3
    with assms(3,4) have k: "k = d - 1" "d \<le> 31" by (simp_all add: k_def mp_def days_in_month_def)
    have "(5 * k + 2) div 153 = 0" by (rule div_eqI [where r = "5 * d - 3"]) (use k assms(3) in simp_all)
    with k assms(3) 3 show ?thesis by (simp add: mp_def)
  next
    case 4
    with assms(3,4) have k: "k = 30 + d" "d \<le> 30" by (simp_all add: k_def mp_def days_in_month_def)
    have "(5 * k + 2) div 153 = 1" by (rule div_eqI [where r = "5 * d - 1"]) (use k assms(3) in simp_all)
    with k assms(3) 4 show ?thesis by (simp add: mp_def)
  next
    case 5
    with assms(3,4) have k: "k = 60 + d" "d \<le> 31" by (simp_all add: k_def mp_def days_in_month_def)
    have "(5 * k + 2) div 153 = 2" by (rule div_eqI [where r = "5 * d - 4"]) (use k assms(3) in simp_all)
    with k assms(3) 5 show ?thesis by (simp add: mp_def)
  next
    case 6
    with assms(3,4) have k: "k = 91 + d" "d \<le> 30" by (simp_all add: k_def mp_def days_in_month_def)
    have "(5 * k + 2) div 153 = 3" by (rule div_eqI [where r = "5 * d - 2"]) (use k assms(3) in simp_all)
    with k assms(3) 6 show ?thesis by (simp add: mp_def)
  next
    case 7
    with assms(3,4) have k: "k = 121 + d" "d \<le> 31" by (simp_all add: k_def mp_def days_in_month_def)
    have "(5 * k + 2) div 153 = 4" by (rule div_eqI [where r = "5 * d - 5"]) (use k assms(3) in simp_all)
    with k assms(3) 7 show ?thesis by (simp add: mp_def)
  next
    case 8
    with assms(3,4) have k: "k = 152 + d" "d \<le> 31" by (simp_all add: k_def mp_def days_in_month_def)
    have "(5 * k + 2) div 153 = 5" by (rule div_eqI [where r = "5 * d - 3"]) (use k assms(3) in simp_all)
    with k assms(3) 8 show ?thesis by (simp add: mp_def)
  next
    case 9
    with assms(3,4) have k: "k = 183 + d" "d \<le> 30" by (simp_all add: k_def mp_def days_in_month_def)
    have "(5 * k + 2) div 153 = 6" by (rule div_eqI [where r = "5 * d - 1"]) (use k assms(3) in simp_all)
    with k assms(3) 9 show ?thesis by (simp add: mp_def)
  next
    case 10
    with assms(3,4) have k: "k = 213 + d" "d \<le> 31" by (simp_all add: k_def mp_def days_in_month_def)
    have "(5 * k + 2) div 153 = 7" by (rule div_eqI [where r = "5 * d - 4"]) (use k assms(3) in simp_all)
    with k assms(3) 10 show ?thesis by (simp add: mp_def)
  next
    case 11
    with assms(3,4) have k: "k = 244 + d" "d \<le> 30" by (simp_all add: k_def mp_def days_in_month_def)
    have "(5 * k + 2) div 153 = 8" by (rule div_eqI [where r = "5 * d - 2"]) (use k assms(3) in simp_all)
    with k assms(3) 11 show ?thesis by (simp add: mp_def)
  next
    case 12
    with assms(3,4) have k: "k = 274 + d" "d \<le> 31" by (simp_all add: k_def mp_def days_in_month_def)
    have "(5 * k + 2) div 153 = 9" by (rule div_eqI [where r = "5 * d - 5"]) (use k assms(3) in simp_all)
    with k assms(3) 12 show ?thesis by (simp add: mp_def)
  qed
  then show "0 \<le> k" "k \<le> 365" "k = 365 \<longrightarrow> m = 2 \<and> is_leap y" "(5 * k + 2) div 153 = mp"
    by simp_all
qed

lemma civil_from_days_inverse:
  assumes "1 \<le> m" "m \<le> 12" "1 \<le> d" "d \<le> days_in_month y m"
  shows "civil_from_days (days_from_civil y m d) = (y, m, d)"
proof -
  define y' where "y' = (if m \<le> 2 then y - 1 else y)"
  define mp where "mp = (if m > 2 then m - 3 else m + 9)"
  define k where "k = (153 * mp + 2) div 5 + d - 1"
  define E where "E = y' div 400"
  define yoe where "yoe = y' mod 400"
  define b where "b = 365 * yoe + yoe div 4 - yoe div 100"
  note K = month_day_of_year [OF assms, folded mp_def, folded k_def]
  have y': "y' = 400 * E + yoe" by (simp add: E_def yoe_def)
  have yb: "0 \<le> yoe" "yoe \<le> 399" by (simp_all add: yoe_def)
  have lp: "k = 365 \<longrightarrow> is_leap (yoe + 1)"
  proof
    assume "k = 365"
    with K(3) have "m = 2" "is_leap y" by simp_all
    then have "is_leap (y' + 1)" by (simp add: y'_def)
    then have "is_leap (400 * E + (yoe + 1))" using y' by (simp add: add.assoc)
    then show "is_leap (yoe + 1)" by (simp only: is_leap_shift)
  qed
  note U = era_year_day_unique [OF yb K(1,2) lp, folded b_def]
  have z: "days_from_civil y m d + 719468 = 146097 * E + (b + k)"
    by (simp add: days_from_civil_def Let_def y'_def [symmetric] mp_def [symmetric]
        E_def [symmetric] yoe_def [symmetric] b_def k_def)
  have dv: "(days_from_civil y m d + 719468) div 146097 = E"
    by (rule div_eqI [OF z]) (use U in simp_all)
  have md: "(days_from_civil y m d + 719468) mod 146097 = b + k"
    by (rule mod_eqI [OF z]) (use U in simp_all)
  have mm: "(if mp < 10 then mp + 3 else mp - 9) = m"
    using assms(1,2) by (auto simp: mp_def)
  have yy: "yoe + E * 400 + (if m \<le> 2 then 1 else 0) = y"
    using y' by (auto simp: y'_def split: if_splits)
  have dd: "k - (153 * mp + 2) div 5 + 1 = d" by (simp add: k_def)
  show ?thesis
    unfolding civil_from_days_def Let_def dv md U(1,2) K(4) mm yy dd ..
qed

lemma gmtime_timegm:
  assumes "1 \<le> m" "m \<le> 12" "1 \<le> d" "d \<le> days_in_month y m"
    and "0 \<le> h" "h < 24" "0 \<le> mi" "mi < 60" "0 \<le> s" "s < 60"
  shows "gmtime (timegm y m d h mi s)
     = Some \<lparr>tm_sec = s, tm_min = mi, tm_hour = h, tm_mday = d, tm_mon = m - 1,
             tm_year = y - 1900, tm_wday = weekday (days_from_civil y m d)\<rparr>"
proof -
  define D where "D = days_from_civil y m d"
  define r where "r = 3600 * h + 60 * mi + s"
  have t: "timegm y m d h mi s = 86400 * D + r" by (simp add: timegm_def D_def r_def)
  have rb: "0 \<le> r" "r < 86400" using assms(5-10) by (simp_all add: r_def)
  have dv: "(86400 * D + r) div 86400 = D" by (rule div_eqI [OF refl rb])
  have md: "(86400 * D + r) mod 86400 = r" by (rule mod_eqI [OF refl rb])
  have hh: "r div 3600 = h"
    by (rule div_eqI [where r = "60 * mi + s"]) (use assms(5-10) in \<open>simp_all add: r_def\<close>)
  have rm: "r mod 3600 = 60 * mi + s"
    by (rule mod_eqI [where k = h]) (use assms(5-10) in \<open>simp_all add: r_def\<close>)
  have mm: "(60 * mi + s) div 60 = mi"
    by (rule div_eqI [where r = s]) (use assms(9,10) in simp_all)
  have ss: "r mod 60 = s"
    by (rule mod_eqI [where k = "60 * h + mi"]) (use assms(9,10) in \<open>simp_all add: r_def\<close>)
  have c: "civil_from_days D = (y, m, d)"
    unfolding D_def by (rule civil_from_days_inverse [OF assms(1-4)])
  show ?thesis
    unfolding t gmtime_def Let_def dv md c hh rm mm ss D_def [symmetric] by simp
qed

lemma timegm_gmtime:
  assumes "gmtime t = Some d"
  shows "timegm (tm_year d + 1900) (tm_mon d + 1) (tm_mday d) (tm_hour d) (tm_min d) (tm_sec d) = t"
proof -
  obtain y m dd where c: "civil_from_days (t div 86400) = (y, m, dd)"
    by (cases "civil_from_days (t div 86400)")
  note f = gmtime_date [OF assms c] gmtime_hms [OF assms]
  have D: "days_from_civil y m dd = t div 86400" by (rule days_from_civil_inverse [OF c])
  define r where "r = t mod 86400"
  have 1: "r = 3600 * (r div 3600) + r mod 3600" by simp
  have 2: "r mod 3600 = 60 * ((r mod 3600) div 60) + (r mod 3600) mod 60" by simp
  have 3: "(r mod 3600) mod 60 = r mod 60" by (simp add: mod_mod_cancel)
  have "3600 * (r div 3600) + 60 * ((r mod 3600) div 60) + r mod 60 = r" using 1 2 3 by linarith
  moreover have "t = 86400 * (t div 86400) + r" by (simp add: r_def)
  ultimately show ?thesis by (simp add: timegm_def f D r_def [symmetric])
qed

lemma gmtime_wday:
  assumes "gmtime t = Some d"
  shows "tm_wday d = weekday (t div 86400)"
  using assms by (auto simp: gmtime_def Let_def split: prod.splits)

lemma lastSunday_eq:
  assumes "m = 3 \<or> m = 10"
  shows "lastSunday y m = 31 - weekday (days_from_civil y m 31)"
proof -
  define D where "D = days_from_civil y m 31"
  have mm: "(m - 1) div 12 = 0" "(m - 1) mod 12 + 1 = m" using assms by auto
  have s: "timegm y m 31 12 0 0 = 86400 * D + 43200" by (simp add: timegm_def D_def)
  have dv: "(86400 * D + 43200) div 86400 = D" by (rule div_eqI [OF refl]) simp_all
  obtain t' where t': "gmtime (86400 * D + 43200) = Some t'" using gmtime_total by blast
  from gmtime_wday [OF t'] have w: "tm_wday t' = weekday D" by (simp add: dv)
  have "mktime (tm_zero\<lparr>tm_year := y - 1900, tm_mon := m - 1, tm_mday := 31,
                              tm_hour := 12, tm_min := 0, tm_sec := 0\<rparr>) = t'"
    by (simp add: mktime_def tm_zero_def Let_def mm s t')
  then show ?thesis by (simp add: lastSunday_def Let_def w D_def)
qed

lemma days_from_civil_day: "days_from_civil y m d = days_from_civil y m 31 - (31 - d)"
  by (simp add: days_from_civil_def Let_def)

lemma weekday_back:
  assumes "0 \<le> j" "j < 7"
  shows "(weekday (D - j) = 0) = (j = weekday D)"
proof -
  have w: "0 \<le> weekday D" "weekday D < 7" by (simp_all add: weekday_def)
  have e: "D + 4 = 7 * ((D + 4) div 7) + weekday D" by (simp add: weekday_def)
  show ?thesis
  proof
    assume "j = weekday D"
    then have "D - j + 4 = 7 * ((D + 4) div 7) + 0" using e by simp
    then have "(D - j + 4) mod 7 = 0" by (rule mod_eqI) simp_all
    then show "weekday (D - j) = 0" by (simp add: weekday_def)
  next
    assume z: "weekday (D - j) = 0"
    show "j = weekday D"
    proof (cases "j \<le> weekday D")
      case True
      have "D - j + 4 = 7 * ((D + 4) div 7) + (weekday D - j)" using e by simp
      then have "(D - j + 4) mod 7 = weekday D - j"
        by (rule mod_eqI) (use True w assms in simp_all)
      with z show ?thesis by (simp add: weekday_def)
    next
      case False
      have "D - j + 4 = 7 * ((D + 4) div 7 - 1) + (weekday D - j + 7)" using e by simp
      then have "(D - j + 4) mod 7 = weekday D - j + 7"
        by (rule mod_eqI) (use False w assms in simp_all)
      with z False w assms show ?thesis by (simp add: weekday_def)
    qed
  qed
qed

lemma is_last_sunday_iff:
  assumes "m = 3 \<or> m = 10"
  shows "is_last_sunday y m d = (d = lastSunday y m)"
proof -
  have dim: "days_in_month y m = 31" using assms by (auto simp: days_in_month_def)
  have w: "0 \<le> weekday (days_from_civil y m 31)" "weekday (days_from_civil y m 31) < 7"
    by (simp_all add: weekday_def)
  show ?thesis
  proof
    assume a: "is_last_sunday y m d"
    then have b: "1 \<le> d" "d \<le> 31" "31 < d + 7"
      and z: "weekday (days_from_civil y m 31 - (31 - d)) = 0"
      using days_from_civil_day [of y m d] by (simp_all add: is_last_sunday_def dim)
    have "31 - d = weekday (days_from_civil y m 31)"
      using weekday_back [of "31 - d" "days_from_civil y m 31"] b z by simp
    then show "d = lastSunday y m" by (simp add: lastSunday_eq [OF assms])
  next
    assume d: "d = lastSunday y m"
    then have d': "d = 31 - weekday (days_from_civil y m 31)" by (simp add: lastSunday_eq [OF assms])
    have "weekday (days_from_civil y m 31 - (31 - d)) = 0"
      using weekday_back [of "31 - d" "days_from_civil y m 31"] w d' by simp
    then have "weekday (days_from_civil y m d) = 0" using days_from_civil_day [of y m d] by simp
    with w d' show "is_last_sunday y m d" by (simp add: is_last_sunday_def dim)
  qed
qed

lemma lastSunday_range:
  assumes "m = 3 \<or> m = 10"
  shows "25 \<le> lastSunday y m" "lastSunday y m \<le> 31"
proof -
  have w: "0 \<le> weekday (days_from_civil y m 31)" "weekday (days_from_civil y m 31) < 7"
    by (simp_all add: weekday_def)
  then show "25 \<le> lastSunday y m" "lastSunday y m \<le> 31"
    by (simp_all add: lastSunday_eq [OF assms])
qed

section \<open>The daylight-saving interval\<close>

lemma hour_ge_1:
  fixes r :: int
  assumes "0 \<le> r"
  shows "(1 \<le> r div 3600) = (3600 \<le> r)" "(r div 3600 < 1) = (r < 3600)"
proof -
  have "(0 < r div 3600) = (3600 \<le> r)" by (rule pos_imp_zdiv_pos_iff) simp
  then show "(1 \<le> r div 3600) = (3600 \<le> r)" by linarith
  then show "(r div 3600 < 1) = (r < 3600)" by linarith
qed

lemma isDstEurope_fields:
  assumes "civil_from_days (u div 86400) = (y, m, d)"
  shows "isDstEurope u =
     (if m < 3 \<or> m > 10 then False
      else if m > 3 \<and> m < 10 then True
      else if m = 3 then
        (if d > lastSunday y 3 then True else if d < lastSunday y 3 then False
         else 3600 \<le> u mod 86400)
      else if m = 10 then
        (if d < lastSunday y 10 then True else if d > lastSunday y 10 then False
         else u mod 86400 < 3600)
      else False)"
proof -
  obtain t where t: "gmtime u = Some t" using gmtime_total by blast
  note f = gmtime_date [OF t assms] gmtime_hms(1) [OF t]
  have r: "0 \<le> u mod 86400" by simp
  show ?thesis
    unfolding isDstEurope_def t option.case Let_def f
    by (simp add: hour_ge_1 [OF r])
qed

lemma isDstEurope_interval:
  assumes c: "civil_from_days (u div 86400) = (y, m, d)"
  shows "isDstEurope u =
     (timegm y 3 (lastSunday y 3) 1 0 0 \<le> u \<and> u < timegm y 10 (lastSunday y 10) 1 0 0)"
proof -
  define z where "z = u div 86400"
  define r where "r = u mod 86400"
  define M where "M = days_from_civil y 3 1"
  define l3 where "l3 = lastSunday y 3"
  define l10 where "l10 = lastSunday y 10"
  define S where "S = timegm y 3 l3 1 0 0"
  define E where "E = timegm y 10 l10 1 0 0"
  have u: "u = 86400 * z + r" by (simp add: z_def r_def)
  have rb: "0 \<le> r" "r < 86400" by (simp_all add: r_def)
  have l3: "25 \<le> l3" "l3 \<le> 31" unfolding l3_def by (rule lastSunday_range, simp)+
  have l10: "25 \<le> l10" "l10 \<le> 31" unfolding l10_def by (rule lastSunday_range, simp)+
  have S: "S = 86400 * (M + l3 - 1) + 3600"
    unfolding S_def timegm_def M_def by (subst days_from_civil_march_based) simp
  have E: "E = 86400 * (M + 213 + l10) + 3600"
    unfolding E_def timegm_def M_def by (subst days_from_civil_march_based) simp
  from civil_from_days_props [OF c] obtain yd where
    yd: "0 \<le> yd" "yd \<le> 365"
    and zz: "u div 86400 = days_from_civil (if m \<le> 2 then y - 1 else y) 3 1 + yd"
    and mp: "(if m > 2 then m - 3 else m + 9) = (5 * yd + 2) div 153"
    and dd: "d = yd - (153 * (if m > 2 then m - 3 else m + 9) + 2) div 5 + 1"
    and mb: "1 \<le> m" "m \<le> 12" by blast
  have q: "5 * yd + 2 = 153 * ((5 * yd + 2) div 153) + (5 * yd + 2) mod 153" by simp
  have qb: "0 \<le> (5 * yd + 2) mod 153" "(5 * yd + 2) mod 153 < 153" by simp_all
  note D = isDstEurope_fields [OF c, folded l3_def l10_def r_def]
  have "isDstEurope u = (S \<le> u \<and> u < E)"
  proof (cases "m \<le> 2")
    case True
    with zz have "z = days_from_civil (y - 1) 3 1 + yd" by (simp add: z_def)
    moreover have "days_from_civil (y - 1) 3 1 + 365 \<le> M"
      using march_first_step [of "y - 1"] by (simp add: M_def)
    ultimately have "z \<le> M" using yd by simp
    with l3 rb have "u < S" unfolding u S by simp
    with True show ?thesis by (simp add: D)
  next
    case False
    then have m3: "3 \<le> m" by simp
    with zz have z: "z = M + yd" by (simp add: z_def M_def)
    from m3 mp have mq: "(5 * yd + 2) div 153 = m - 3" by simp
    from m3 dd have d: "d = yd - (153 * (m - 3) + 2) div 5 + 1" by simp
    from q qb have yb: "153 * (m - 3) \<le> 5 * yd + 2" "5 * yd + 2 < 153 * (m - 3) + 153"
      unfolding mq by simp_all
    consider "m = 3" | "3 < m \<and> m < 10" | "m = 10" | "10 < m" using m3 by linarith
    then show ?thesis
    proof cases
      case 1
      with d have dy: "d = yd + 1" by simp
      from 1 yb have "yd \<le> 30" by simp
      with z l10 rb have lt: "u < E" unfolding u E by simp
      consider "d > l3" | "d < l3" | "d = l3" by linarith
      then show ?thesis
      proof cases
        case 1
        with dy z rb have "S \<le> u" unfolding u S by simp
        with 1 \<open>m = 3\<close> lt show ?thesis by (simp add: D)
      next
        case 2
        with dy z rb have "u < S" unfolding u S by simp
        with 2 \<open>m = 3\<close> show ?thesis by (simp add: D)
      next
        case 3
        with dy z have "(S \<le> u) = (3600 \<le> r)" unfolding u S by simp
        with 3 \<open>m = 3\<close> lt show ?thesis by (simp add: D)
      qed
    next
      case 2
      with yb have "31 \<le> yd" "yd \<le> 213" by simp_all
      with z l3 l10 rb have "S \<le> u" "u < E" unfolding u S E by simp_all
      with 2 show ?thesis by (simp add: D)
    next
      case 3
      with d have dy: "d = yd - 213" by simp
      from 3 yb have "214 \<le> yd" by simp
      with z l3 rb have ge: "S \<le> u" unfolding u S by simp
      consider "d < l10" | "d > l10" | "d = l10" by linarith
      then show ?thesis
      proof cases
        case 1
        with dy z rb have "u < E" unfolding u E by simp
        with 1 \<open>m = 10\<close> ge show ?thesis by (simp add: D)
      next
        case 2
        with dy z rb have "\<not> u < E" unfolding u E by simp
        with 2 \<open>m = 10\<close> show ?thesis by (simp add: D)
      next
        case 3
        with dy z have "(u < E) = (r < 3600)" unfolding u E by simp
        with 3 \<open>m = 10\<close> ge show ?thesis by (simp add: D)
      qed
    next
      case 4
      with yb have "245 \<le> yd" by simp
      with z l10 rb have "\<not> u < E" unfolding u E by simp
      with 4 show ?thesis by (simp add: D)
    qed
  qed
  then show ?thesis by (simp add: S_def E_def l3_def l10_def)
qed

lemma civil_of_timegm:
  assumes "1 \<le> m" "m \<le> 12" "1 \<le> d" "d \<le> days_in_month y m"
    and "0 \<le> 3600 * h + 60 * mi + s" "3600 * h + 60 * mi + s < 86400"
  shows "civil_from_days (timegm y m d h mi s div 86400) = (y, m, d)"
proof -
  have "timegm y m d h mi s div 86400 = days_from_civil y m d"
    by (rule div_eqI [where r = "3600 * h + 60 * mi + s"]) (use assms(5,6) in \<open>simp_all add: timegm_def\<close>)
  then show ?thesis by (simp add: civil_from_days_inverse [OF assms(1-4)])
qed

lemma dst_start_before_end:
  "timegm y 3 (lastSunday y 3) 1 0 0 < timegm y 10 (lastSunday y 10) 1 0 0"
proof -
  have l3: "lastSunday y 3 \<le> 31" by (rule lastSunday_range) simp
  have l10: "25 \<le> lastSunday y 10" by (rule lastSunday_range) simp
  have 3: "days_from_civil y 3 (lastSunday y 3) = days_from_civil y 3 1 + lastSunday y 3 - 1"
    by (subst days_from_civil_march_based) simp
  have 10: "days_from_civil y 10 (lastSunday y 10) = days_from_civil y 3 1 + 213 + lastSunday y 10"
    by (subst days_from_civil_march_based) simp
  show ?thesis unfolding timegm_def 3 10 using l3 l10 by simp
qed

lemma isDstEurope_march_boundary:
  assumes "is_last_sunday y 3 d"
  shows "\<not> isDstEurope (timegm y 3 d 0 59 59)" "isDstEurope (timegm y 3 d 1 0 0)"
proof -
  from assms have d: "d = lastSunday y 3" by (simp add: is_last_sunday_iff)
  from assms have v: "1 \<le> d" "d \<le> days_in_month y 3" by (simp_all add: is_last_sunday_def)
  have c0: "civil_from_days (timegm y 3 d 0 59 59 div 86400) = (y, 3, d)"
    by (rule civil_of_timegm) (use v in simp_all)
  have c1: "civil_from_days (timegm y 3 d 1 0 0 div 86400) = (y, 3, d)"
    by (rule civil_of_timegm) (use v in simp_all)
  have lt: "timegm y 3 d 0 59 59 < timegm y 3 d 1 0 0" by (simp add: timegm_def)
  show "\<not> isDstEurope (timegm y 3 d 0 59 59)"
    using lt by (simp add: isDstEurope_interval [OF c0] d [symmetric])
  show "isDstEurope (timegm y 3 d 1 0 0)"
    using dst_start_before_end [of y] by (simp add: isDstEurope_interval [OF c1] d [symmetric])
qed

lemma isDstEurope_october_boundary:
  assumes "is_last_sunday y 10 d"
  shows "isDstEurope (timegm y 10 d 0 59 59)" "\<not> isDstEurope (timegm y 10 d 1 0 0)"
proof -
  from assms have d: "d = lastSunday y 10" by (simp add: is_last_sunday_iff)
  from assms have v: "1 \<le> d" "d \<le> days_in_month y 10" by (simp_all add: is_last_sunday_def)
  have c0: "civil_from_days (timegm y 10 d 0 59 59 div 86400) = (y, 10, d)"
    by (rule civil_of_timegm) (use v in simp_all)
  have c1: "civil_from_days (timegm y 10 d 1 0 0 div 86400) = (y, 10, d)"
    by (rule civil_of_timegm) (use v in simp_all)
  have lt: "timegm y 10 d 0 59 59 < timegm y 10 d 1 0 0" by (simp add: timegm_def)
  have l3: "lastSunday y 3 \<le> 31" by (rule lastSunday_range) simp
  have 3: "days_from_civil y 3 (lastSunday y 3) = days_from_civil y 3 1 + lastSunday y 3 - 1"
    by (subst days_from_civil_march_based) simp
  have 10: "days_from_civil y 10 d = days_from_civil y 3 1 + 213 + d"
    by (subst days_from_civil_march_based) simp
  have ge: "timegm y 3 (lastSunday y 3) 1 0 0 \<le> timegm y 10 d 0 59 59"
    unfolding timegm_def 3 10 using l3 v by simp
  show "isDstEurope (timegm y 10 d 0 59 59)"
    using lt ge by (simp add: isDstEurope_interval [OF c0] d [symmetric])
  show "\<not> isDstEurope (timegm y 10 d 1 0 0)"
    by (simp add: isDstEurope_interval [OF c1] d [symmetric])
qed

lemma isDstEurope_by_month:
  assumes "gmtime v = Some t"
  shows "4 \<le> tm_mon t + 1 \<and> tm_mon t + 1 \<le> 9 \<longrightarrow> isDstEurope v"
    "tm_mon t + 1 \<le> 2 \<or> 11 \<le> tm_mon t + 1 \<longrightarrow> \<not> isDstEurope v"
  by (auto simp: isDstEurope_def assms Let_def)

section \<open>The scan always finds a candidate\<close>

text \<open>
  Among the candidates of any scan there is one at 01:05 UTC and, an hour later, one at
  02:05 UTC of the same day. Both lie on the same side of a clock change, which happens at
  01:00 UTC; so one of the two shows 03:05 on the display.
\<close>

lemma isDstEurope_same_day:
  assumes "t div 86400 = t' div 86400"
    and "(1 \<le> (t mod 86400) div 3600) = (1 \<le> (t' mod 86400) div 3600)"
  shows "isDstEurope t' = isDstEurope t"
proof -
  obtain d where d: "gmtime t = Some d" using gmtime_total by blast
  obtain d' where d': "gmtime t' = Some d'" using gmtime_total by blast
  obtain y m dd where c: "civil_from_days (t div 86400) = (y, m, dd)" by (cases "civil_from_days (t div 86400)")
  with assms(1) have c': "civil_from_days (t' div 86400) = (y, m, dd)" by simp
  note f = gmtime_date [OF d c] gmtime_hms(1) [OF d]
  note f' = gmtime_date [OF d' c'] gmtime_hms(1) [OF d']
  have h: "(1 \<le> tm_hour d') = (1 \<le> tm_hour d)" "(tm_hour d' < 1) = (tm_hour d < 1)"
    using assms(2) f(4) f'(4) by auto
  show ?thesis
    unfolding isDstEurope_def d d' option.case Let_def f(1-3) f'(1-3) h ..
qed

lemma isDstEurope_hour_later:
  assumes "a mod 86400 = 3900"
  shows "isDstEurope (a + 3600) = isDstEurope a"
proof -
  have a: "a = 86400 * (a div 86400) + 3900" using assms by (metis mult_div_mod_eq)
  have 1: "(a + 3600) div 86400 = a div 86400"
    by (rule div_eqI [where r = 7500]) (use a in simp_all)
  have 2: "(a + 3600) mod 86400 = 7500"
    by (rule mod_eqI [where k = "a div 86400"]) (use a in simp_all)
  show ?thesis
    by (rule isDstEurope_same_day) (simp_all add: 1 2 assms)
qed

lemma match_exists:
  assumes "startUtc mod 60 = 0"
  shows "\<exists>k. 0 \<le> k \<and> k < maxMinutes \<and> displayMatches (startUtc + k * 60)"
proof -
  define w where "w = (3900 - startUtc) mod 86400"
  define a where "a = startUtc + w"
  have w: "0 \<le> w" "w < 86400" by (simp_all add: w_def)
  have "60 dvd startUtc" using assms by (simp add: dvd_eq_mod_eq_0)
  moreover have "(60::int) dvd 3900" by simp
  ultimately have "60 dvd 3900 - startUtc" by (rule dvd_diff [rotated])
  then have "60 dvd w" unfolding w_def by (simp add: dvd_mod_iff)
  then obtain k where k: "w = k * 60" by (auto simp: dvd_def mult.commute)
  with w have kb: "0 \<le> k" "k < 1440" by simp_all
  have am: "a mod 86400 = 3900"
    unfolding a_def w_def by (simp add: mod_add_right_eq)
  show ?thesis
  proof (cases "isDstEurope a")
    case True
    then have "getDisplayTime a = a + 7200" by (simp add: getDisplayTime_def getUtcOffsetSeconds_def)
    then have "getDisplayTime a mod 86400 = (a mod 86400 + 7200) mod 86400" by (simp add: mod_add_left_eq)
    with am have "displayMatches a" by (simp add: displayMatches_iff)
    with kb k show ?thesis unfolding a_def by (intro exI [of _ k]) (simp add: maxMinutes_def)
  next
    case False
    with isDstEurope_hour_later [OF am] have "getDisplayTime (a + 3600) = a + 7200"
      by (simp add: getDisplayTime_def getUtcOffsetSeconds_def)
    then have "getDisplayTime (a + 3600) mod 86400 = (a mod 86400 + 7200) mod 86400" by (simp add: mod_add_left_eq)
    with am have "displayMatches (a + 3600)" by (simp add: displayMatches_iff)
    moreover have "a + 3600 = startUtc + (k + 60) * 60" unfolding a_def k by simp
    ultimately show ?thesis using kb by (intro exI [of _ "k + 60"]) (simp add: maxMinutes_def)
  qed
qed

lemma scanFrom_finds:
  assumes "startUtc mod 60 = 0"
  shows "\<exists>x. scanFrom 0 startUtc = Some x"
proof (cases "scanFrom 0 startUtc")
  case None
  from match_exists [OF assms] obtain k where "0 \<le> k" "k < maxMinutes" "displayMatches (startUtc + k * 60)"
    by blast
  with scanFrom_None [OF None] show ?thesis by blast
next
  case (Some x)
  then show ?thesis by blast
qed

section \<open>The scan on the night of 27 October 2024\<close>

lemma schedule_from_2024_10_27_0030:
  "nextNtpSyncEpoch (scheduleNextNightlySync 1729989000 initialGlobals) = 1729994700"
  by code_simp

lemma displayMatches_2024_10_27_0205: "displayMatches 1729994700"
  by code_simp

section \<open>Frame facts: which globals each function writes\<close>

lemma schedule_frame:
  "scheduleNextNightlySync c g = g\<lparr>nextNtpSyncEpoch := nextNtpSyncEpoch (scheduleNextNightlySync c g)\<rparr>"
  by (simp add: scheduleNextNightlySync_def split: option.splits)

lemma schedule_epoch_indep:
  "nextNtpSyncEpoch (scheduleNextNightlySync c g) = nextNtpSyncEpoch (scheduleNextNightlySync c g')"
  by (simp add: scheduleNextNightlySync_def split: option.splits)

lemma schedule_rtc [simp]:
  "rtcBaseTime (scheduleNextNightlySync c g) = rtcBaseTime g"
  "rtcBaseMillis (scheduleNextNightlySync c g) = rtcBaseMillis g"
  "myState (scheduleNextNightlySync c g) = myState g"
  by (simp_all add: scheduleNextNightlySync_def split: option.splits)

lemma superviseWiFi_rtc [simp]:
  "rtcBaseTime (superviseWiFi nowMs connected g) = rtcBaseTime g"
  "rtcBaseMillis (superviseWiFi nowMs connected g) = rtcBaseMillis g"
  "nextNtpSyncEpoch (superviseWiFi nowMs connected g) = nextNtpSyncEpoch g"
  by (simp_all add: superviseWiFi_def Let_def)

lemma updateTimeFromRtc_rtc [simp]:
  "rtcBaseTime (updateTimeFromRtc s ms g) = rtcBaseTime g"
  "rtcBaseMillis (updateTimeFromRtc s ms g) = rtcBaseMillis g"
  by (simp_all add: updateTimeFromRtc_def Let_def split: option.splits)

lemma shouldStart_rtc [simp]:
  "rtcBaseTime (snd (shouldStartNightlySync t g)) = rtcBaseTime g"
  "rtcBaseMillis (snd (shouldStartNightlySync t g)) = rtcBaseMillis g"
  by (simp_all add: shouldStartNightlySync_def)

lemma loop_show_clock_rtc:
  assumes "myState g = STATE_SHOW_CLOCK"
  shows "rtcBaseTime (loop p g) = rtcBaseTime g \<and> rtcBaseMillis (loop p g) = rtcBaseMillis g"
proof -
  define g1 where "g1 = (if (millis_loop p - lastRenderMillis g) \<ge> renderIntervalMs
                        then updateTimeFromRtc (time_render p) (millis_render p)
                               (g\<lparr>lastRenderMillis := millis_loop p\<rparr>)
                        else g)"
  define r where "r = shouldStartNightlySync (getCurrentRtcTime (time_rtc p) (millis_rtc p) g1) g1"
  define g3 where "g3 = (if fst r
                        then (snd r)\<lparr>ntpSyncInProgress := True, ntpSyncStartMs := millis_state p,
                                myState := STATE_WAIT_FOR_TIME\<rparr>
                        else snd r)"
  have l: "loop p g = superviseWiFi (millis_loop p) (wifi_connected p) g3"
    using assms by (simp add: loop_def Let_def g1_def r_def g3_def split: prod.splits)
  have 1: "rtcBaseTime g1 = rtcBaseTime g \<and> rtcBaseMillis g1 = rtcBaseMillis g"
    by (simp add: g1_def)
  have 2: "rtcBaseTime (snd r) = rtcBaseTime g1 \<and> rtcBaseMillis (snd r) = rtcBaseMillis g1"
    by (simp add: r_def)
  have 3: "rtcBaseTime g3 = rtcBaseTime (snd r) \<and> rtcBaseMillis g3 = rtcBaseMillis (snd r)"
    by (simp add: g3_def)
  show ?thesis using 1 2 3 by (simp add: l)
qed

lemma loop_wait_rtc:
  assumes "myState g = STATE_WAIT_FOR_TIME"
  shows "(rtcBaseTime (loop p g) = rtcBaseTime g \<and> rtcBaseMillis (loop p g) = rtcBaseMillis g)
       \<or> (1451606400 \<le> time_sync p
           \<and> rtcBaseTime (loop p g) = time_sync p \<and> rtcBaseMillis (loop p g) = millis_sync p)"
proof (cases "ntpSyncInProgress g \<and> millis_state p - ntpSyncStartMs g > ntpWaitTimeoutMs")
  case True
  with assms show ?thesis by (simp add: loop_def)
next
  case nt: False
  show ?thesis
  proof (cases "isTimeValid (time_valid p)")
    case False
    with nt assms have "loop p g = superviseWiFi (millis_loop p) (wifi_connected p) g"
      by (auto simp: loop_def Let_def)
    then show ?thesis by simp
  next
    case v: True
    show ?thesis
    proof (cases "time_sync p < 1451606400")
      case True
      with v nt assms have "loop p g = g\<lparr>ntpSyncInProgress := False, myState := STATE_WIFI_CONFIG\<rparr>"
        by (auto simp: loop_def syncRtcFromSystemTime_def Let_def)
      then show ?thesis by simp
    next
      case False
      with v nt assms have "loop p g = superviseWiFi (millis_loop p) (wifi_connected p)
          ((scheduleNextNightlySync (time_sync p)
               (g\<lparr>rtcBaseTime := time_sync p, rtcBaseMillis := millis_sync p\<rparr>))
             \<lparr>ntpSyncInProgress := False, myState := STATE_SHOW_CLOCK\<rparr>)"
        by (auto simp: loop_def syncRtcFromSystemTime_def Let_def)
      with False show ?thesis by simp
    qed
  qed
qed


text \<open>
  A pass that starts outside \<open>STATE_WIFI_CONFIG\<close> leaves the reference pair as it was, or
  it has absorbed a reading at or above the floor in this very pass (and \<open>superviseWiFi\<close> may
  then still force the transition): the pair is never cleared.
\<close>

lemma loop_reentry_reference:
  assumes "myState g \<noteq> STATE_WIFI_CONFIG"
  shows "(rtcBaseTime (loop p g) = rtcBaseTime g \<and> rtcBaseMillis (loop p g) = rtcBaseMillis g)
       \<or> (myState g = STATE_WAIT_FOR_TIME \<and> 1451606400 \<le> time_sync p
           \<and> rtcBaseTime (loop p g) = time_sync p \<and> rtcBaseMillis (loop p g) = millis_sync p)"
proof (cases "myState g")
  case STATE_WIFI_CONFIG
  with assms show ?thesis by simp
next
  case STATE_WAIT_FOR_TIME
  with loop_wait_rtc [OF this, of p] show ?thesis by blast
next
  case STATE_SHOW_CLOCK
  with loop_show_clock_rtc [OF this, of p] show ?thesis by blast
qed

section \<open>Elapsed time on the wrapping millisecond counter\<close>

lemma uint_elapsed:
  "uint ((a::32 word) - b) = (uint a - uint b) mod 2 ^ 32"
  by (simp add: uint_word_ariths)

section \<open>The claims\<close>

text \<open>
  Claim C1, as the spec has it: with 03:05 as the resync time of day, the scheduler called
  at 2024-10-27T00:30:00 UTC stores 2024-10-27T01:05:00 UTC. It does not.
\<close>

theorem resync_2024_10_27_stores_0105_counterexample:
  "ntpSyncHour = 3 \<and> ntpSyncMinute = 5
   \<and> timegm 2024 10 27 0 30 0 = 1729989000
   \<and> timegm 2024 10 27 1 5 0 = 1729991100
   \<and> nextNtpSyncEpoch (scheduleNextNightlySync 1729989000 initialGlobals) \<noteq> 1729991100"
proof -
  have "timegm 2024 10 27 0 30 0 = 1729989000" "timegm 2024 10 27 1 5 0 = 1729991100"
    by code_simp+
  then show ?thesis
    by (simp add: schedule_from_2024_10_27_0030 ntpSyncHour_def ntpSyncMinute_def)
qed

text \<open>
  Claim C1, amended. The scheduler called at 2024-10-27T00:30:00 UTC stores
  2024-10-27T02:05:00 UTC. The 27th is the last Sunday of October 2024, daylight saving ends
  at 01:00 UTC, so at 01:05 UTC the display shows 02:05 and only at 02:05 UTC does it show
  03:05.
\<close>

theorem resync_2024_10_27_stores_0205:
  "nextNtpSyncEpoch (scheduleNextNightlySync (timegm 2024 10 27 0 30 0) g) = timegm 2024 10 27 2 5 0
   \<and> timegm 2024 10 27 0 30 0 = 1729989000
   \<and> timegm 2024 10 27 2 5 0 = 1729994700
   \<and> is_last_sunday 2024 10 27
   \<and> isDstEurope (timegm 2024 10 27 0 30 0)
   \<and> \<not> isDstEurope (timegm 2024 10 27 1 5 0)
   \<and> getDisplayTime (timegm 2024 10 27 1 5 0) = timegm 2024 10 27 2 5 0
   \<and> getDisplayTime (timegm 2024 10 27 2 5 0) = timegm 2024 10 27 3 5 0"
proof -
  have t: "timegm 2024 10 27 0 30 0 = 1729989000" "timegm 2024 10 27 2 5 0 = 1729994700"
    "timegm 2024 10 27 1 5 0 = 1729991100" "timegm 2024 10 27 3 5 0 = 1729998300"
    by code_simp+
  have s: "nextNtpSyncEpoch (scheduleNextNightlySync 1729989000 g) = 1729994700"
    using schedule_epoch_indep [of 1729989000 g initialGlobals] schedule_from_2024_10_27_0030
    by simp
  have l: "is_last_sunday 2024 10 27" by code_simp
  have d: "isDstEurope 1729989000" "\<not> isDstEurope 1729991100"
    "getDisplayTime 1729991100 = 1729994700" "getDisplayTime 1729994700 = 1729998300"
    by code_simp+
  show ?thesis unfolding t using s l d by simp
qed

text \<open>
  Claim C2. Let \<open>u\<close> be a UTC instant and let \<open>gmtime\<close> place it in the year \<open>y\<close>. Then
  \<open>isDstEurope u\<close> holds exactly if \<open>u\<close> lies from 01:00:00 UTC on the last Sunday of March
  of \<open>y\<close> (included) to 01:00:00 UTC on the last Sunday of October of \<open>y\<close> (excluded). On the
  March Sunday the predicate is false at 00:59:59 and true at 01:00:00; on the October Sunday
  it is true at 00:59:59 and false at 01:00:00. It is true throughout April to September
  and false throughout November to February. Every instant has its fields, and
  \<open>lastSunday\<close> gives the last Sunday of either month, so the rule speaks about every
  instant.
\<close>

theorem isDstEurope_eu_rule:
  "(gmtime u = Some t \<and> is_last_sunday (tm_year t + 1900) 3 dMar
      \<and> is_last_sunday (tm_year t + 1900) 10 dOct \<longrightarrow>
      isDstEurope u = (timegm (tm_year t + 1900) 3 dMar 1 0 0 \<le> u
                       \<and> u < timegm (tm_year t + 1900) 10 dOct 1 0 0))
   \<and> (is_last_sunday y 3 d3 \<longrightarrow>
        \<not> isDstEurope (timegm y 3 d3 0 59 59) \<and> isDstEurope (timegm y 3 d3 1 0 0))
   \<and> (is_last_sunday y 10 d10 \<longrightarrow>
        isDstEurope (timegm y 10 d10 0 59 59) \<and> \<not> isDstEurope (timegm y 10 d10 1 0 0))
   \<and> (gmtime v = Some tv \<and> 4 \<le> tm_mon tv + 1 \<and> tm_mon tv + 1 \<le> 9 \<longrightarrow> isDstEurope v)
   \<and> (gmtime w = Some tw \<and> (tm_mon tw + 1 \<le> 2 \<or> 11 \<le> tm_mon tw + 1) \<longrightarrow> \<not> isDstEurope w)
   \<and> (\<exists>t'. gmtime u = Some t')
   \<and> is_last_sunday y 3 (lastSunday y 3) \<and> is_last_sunday y 10 (lastSunday y 10)"
proof (intro conjI impI)
  assume a: "gmtime u = Some t \<and> is_last_sunday (tm_year t + 1900) 3 dMar
      \<and> is_last_sunday (tm_year t + 1900) 10 dOct"
  obtain yy m d where c: "civil_from_days (u div 86400) = (yy, m, d)"
    by (cases "civil_from_days (u div 86400)")
  from a gmtime_date(1) [OF _ c] have y: "tm_year t + 1900 = yy" by simp
  from a have l: "dMar = lastSunday yy 3" "dOct = lastSunday yy 10"
    by (simp_all add: is_last_sunday_iff y)
  show "isDstEurope u = (timegm (tm_year t + 1900) 3 dMar 1 0 0 \<le> u
                       \<and> u < timegm (tm_year t + 1900) 10 dOct 1 0 0)"
    unfolding y l by (rule isDstEurope_interval [OF c])
next
  assume "is_last_sunday y 3 d3"
  then show "\<not> isDstEurope (timegm y 3 d3 0 59 59)" "isDstEurope (timegm y 3 d3 1 0 0)"
    by (rule isDstEurope_march_boundary)+
next
  assume "is_last_sunday y 10 d10"
  then show "isDstEurope (timegm y 10 d10 0 59 59)" "\<not> isDstEurope (timegm y 10 d10 1 0 0)"
    by (rule isDstEurope_october_boundary)+
next
  assume "gmtime v = Some tv \<and> 4 \<le> tm_mon tv + 1 \<and> tm_mon tv + 1 \<le> 9"
  then show "isDstEurope v" using isDstEurope_by_month(1) [of v tv] by simp
next
  assume "gmtime w = Some tw \<and> (tm_mon tw + 1 \<le> 2 \<or> 11 \<le> tm_mon tw + 1)"
  then show "\<not> isDstEurope w" using isDstEurope_by_month(2) [of w tw] by blast
next
  show "\<exists>t'. gmtime u = Some t'" by (rule gmtime_total)
next
  show "is_last_sunday y 3 (lastSunday y 3)" by (simp add: is_last_sunday_iff)
  show "is_last_sunday y 10 (lastSunday y 10)" by (simp add: is_last_sunday_iff)
qed

theorem isDstEurope_eu_rule_witness:
  "gmtime 1729989000 = Some \<lparr>tm_sec = 0, tm_min = 30, tm_hour = 0, tm_mday = 27, tm_mon = 9,
                              tm_year = 124, tm_wday = 0\<rparr>
   \<and> is_last_sunday 2024 3 31 \<and> is_last_sunday 2024 10 27
   \<and> isDstEurope 1729989000
   \<and> timegm 2024 3 31 1 0 0 \<le> 1729989000 \<and> 1729989000 < timegm 2024 10 27 1 0 0
   \<and> \<not> isDstEurope (timegm 2024 3 31 0 59 59) \<and> isDstEurope (timegm 2024 3 31 1 0 0)
   \<and> isDstEurope (timegm 2024 10 27 0 59 59) \<and> \<not> isDstEurope (timegm 2024 10 27 1 0 0)
   \<and> gmtime 1720000000 = Some \<lparr>tm_sec = 40, tm_min = 46, tm_hour = 9, tm_mday = 3, tm_mon = 6,
                              tm_year = 124, tm_wday = 3\<rparr>
   \<and> isDstEurope 1720000000
   \<and> gmtime 1704067200 = Some \<lparr>tm_sec = 0, tm_min = 0, tm_hour = 0, tm_mday = 1, tm_mon = 0,
                              tm_year = 124, tm_wday = 1\<rparr>
   \<and> \<not> isDstEurope 1704067200"
proof -
  have g: "gmtime 1729989000 = Some \<lparr>tm_sec = 0, tm_min = 30, tm_hour = 0, tm_mday = 27,
             tm_mon = 9, tm_year = 124, tm_wday = 0\<rparr>"
    "gmtime 1720000000 = Some \<lparr>tm_sec = 40, tm_min = 46, tm_hour = 9, tm_mday = 3, tm_mon = 6,
                              tm_year = 124, tm_wday = 3\<rparr>"
    "gmtime 1704067200 = Some \<lparr>tm_sec = 0, tm_min = 0, tm_hour = 0, tm_mday = 1, tm_mon = 0,
                              tm_year = 124, tm_wday = 1\<rparr>"
    by code_simp+
  have l: "is_last_sunday 2024 3 31" "is_last_sunday 2024 10 27" by code_simp+
  have b: "timegm 2024 3 31 1 0 0 \<le> 1729989000" "1729989000 < timegm 2024 10 27 1 0 0"
    by code_simp+
  from isDstEurope_eu_rule
    [of 1729989000 "\<lparr>tm_sec = 0, tm_min = 30, tm_hour = 0, tm_mday = 27, tm_mon = 9,
                     tm_year = 124, tm_wday = 0\<rparr>" 31 27 2024 31 27
        1720000000 "\<lparr>tm_sec = 40, tm_min = 46, tm_hour = 9, tm_mday = 3, tm_mon = 6,
                     tm_year = 124, tm_wday = 3\<rparr>"
        1704067200 "\<lparr>tm_sec = 0, tm_min = 0, tm_hour = 0, tm_mday = 1, tm_mon = 0,
                     tm_year = 124, tm_wday = 1\<rparr>"]
  show ?thesis using g l b by simp
qed

text \<open>
  Claim C3, as the spec has it: the scan starts at the whole-minute boundary at or after
  \<open>fromUtc\<close>, so an instant that is a whole minute and shows the resync time of day is
  itself stored. It is not: 2024-10-27T02:05:00 UTC is such an instant.
\<close>

theorem scheduleNextNightlySync_at_match_counterexample:
  "(1729994700 :: int) mod 60 = 0
   \<and> displayMatches 1729994700
   \<and> nextNtpSyncEpoch (scheduleNextNightlySync 1729994700 initialGlobals) \<noteq> 1729994700"
  using schedule_later [of 1729994700 initialGlobals] displayMatches_2024_10_27_0205
  by simp

text \<open>
  Claim C3, amended. For every \<open>fromUtc\<close> from the epoch on, the candidates are the 2880
  whole minutes that follow \<open>fromUtc\<close>, the first of them being the first whole-minute
  boundary strictly after \<open>fromUtc\<close>. One of them always shows the resync time of day with
  seconds 0 on the display, and the scheduler stores the first that does. The stored instant
  is never \<open>fromUtc\<close> itself.
\<close>

theorem scheduleNextNightlySync_first_match:
  assumes "0 \<le> fromUtc"
  shows "(fromUtc - fromUtc mod 60 + 60) mod 60 = 0
       \<and> fromUtc < fromUtc - fromUtc mod 60 + 60
       \<and> fromUtc - fromUtc mod 60 + 60 \<le> fromUtc + 60
       \<and> (\<exists>i. 0 \<le> i \<and> i < 48 * 60
              \<and> nextNtpSyncEpoch (scheduleNextNightlySync fromUtc g)
                  = (fromUtc - fromUtc mod 60 + 60) + i * 60
              \<and> displayMatches ((fromUtc - fromUtc mod 60 + 60) + i * 60)
              \<and> (\<forall>j. 0 \<le> j \<and> j < i \<longrightarrow>
                     \<not> displayMatches ((fromUtc - fromUtc mod 60 + 60) + j * 60)))
       \<and> nextNtpSyncEpoch (scheduleNextNightlySync fromUtc g) \<noteq> fromUtc"
proof -
  let ?start = "fromUtc - fromUtc mod 60 + 60"
  have cr: "c_rem fromUtc 60 = fromUtc mod 60" using assms by (simp add: c_rem_nonneg)
  have m: "?start mod 60 = 0" by (simp add: minus_mod_eq_mult_div)
  have b: "0 \<le> fromUtc mod 60" "fromUtc mod 60 < 60" by simp_all
  from scanFrom_finds [OF m] obtain x where x: "scanFrom 0 ?start = Some x" by blast
  then have st: "nextNtpSyncEpoch (scheduleNextNightlySync fromUtc g) = x"
    by (simp add: scheduleNextNightlySync_def cr)
  from scanFrom_Some [OF x] obtain i where i: "0 \<le> i" "i < maxMinutes" "x = ?start + i * 60"
    "displayMatches x" "\<forall>k. 0 \<le> k \<and> k < i \<longrightarrow> \<not> displayMatches (?start + k * 60)"
    by blast
  have ex: "\<exists>i. 0 \<le> i \<and> i < 48 * 60
              \<and> nextNtpSyncEpoch (scheduleNextNightlySync fromUtc g) = ?start + i * 60
              \<and> displayMatches (?start + i * 60)
              \<and> (\<forall>j. 0 \<le> j \<and> j < i \<longrightarrow> \<not> displayMatches (?start + j * 60))"
    using i st by (intro exI [of _ i]) (simp add: maxMinutes_def)
  have ne: "nextNtpSyncEpoch (scheduleNextNightlySync fromUtc g) \<noteq> fromUtc"
    using schedule_later [of fromUtc g] by simp
  show ?thesis using m b ex ne by simp
qed

theorem scheduleNextNightlySync_first_match_witness:
  "(0::int) \<le> 1729994700
   \<and> (\<exists>i. 0 \<le> i \<and> i < 48 * 60
         \<and> nextNtpSyncEpoch (scheduleNextNightlySync 1729994700 initialGlobals) = 1729994760 + i * 60
         \<and> displayMatches (1729994760 + i * 60))
   \<and> nextNtpSyncEpoch (scheduleNextNightlySync 1729994700 initialGlobals) \<noteq> 1729994700"
proof -
  have h: "(0::int) \<le> 1729994700" by simp
  from scheduleNextNightlySync_first_match [OF h, of initialGlobals]
  show ?thesis by auto
qed

text \<open>
  Claim C4. When \<open>shouldStartNightlySync t\<close> reports a due resync, it has stored the next
  schedule computed from \<open>t\<close>, and that schedule is later than \<open>t\<close>. So a second call at
  the same instant, or at any instant before the new schedule, reports false: one due event
  is reported once.
\<close>

theorem shouldStartNightlySync_fires_once:
  assumes "fst (shouldStartNightlySync t g)"
  shows "snd (shouldStartNightlySync t g) = scheduleNextNightlySync t g
       \<and> t < nextNtpSyncEpoch (snd (shouldStartNightlySync t g))
       \<and> \<not> fst (shouldStartNightlySync t (snd (shouldStartNightlySync t g)))
       \<and> (\<forall>t'. t' < nextNtpSyncEpoch (snd (shouldStartNightlySync t g)) \<longrightarrow>
              \<not> fst (shouldStartNightlySync t' (snd (shouldStartNightlySync t g))))"
proof -
  from assms have s: "snd (shouldStartNightlySync t g) = scheduleNextNightlySync t g"
    by (auto simp: shouldStartNightlySync_def split: if_splits)
  have later: "t < nextNtpSyncEpoch (scheduleNextNightlySync t g)" by (rule schedule_later)
  have no: "\<not> fst (shouldStartNightlySync t' (scheduleNextNightlySync t g))"
    if "t' < nextNtpSyncEpoch (scheduleNextNightlySync t g)" for t'
    using that by (simp add: shouldStartNightlySync_def)
  show ?thesis using s later no by simp
qed

theorem shouldStartNightlySync_fires_once_witness:
  "fst (shouldStartNightlySync 1729994700 (initialGlobals\<lparr>nextNtpSyncEpoch := 1729994700\<rparr>))
   \<and> \<not> fst (shouldStartNightlySync 1729994700
              (snd (shouldStartNightlySync 1729994700
                      (initialGlobals\<lparr>nextNtpSyncEpoch := 1729994700\<rparr>))))"
proof -
  have h: "fst (shouldStartNightlySync 1729994700 (initialGlobals\<lparr>nextNtpSyncEpoch := 1729994700\<rparr>))"
    by (simp add: shouldStartNightlySync_def initialGlobals_def)
  from shouldStartNightlySync_fires_once [OF h] h show ?thesis by blast
qed




text \<open>When the first observation is at a tick other than 0, the supervisor does what the
  scenario expects.\<close>

lemma superviseWiFi_absence_bound:
  assumes "wifiLostSinceMs g = 0" "t0 \<noteq> 0" "myState g = STATE_SHOW_CLOCK"
  shows "(let g1 = superviseWiFi t0 False g;
        g2 = superviseWiFi (t0 + 59999) False g1;
        g3 = superviseWiFi (t0 + 60001) False g2
    in myState g1 = STATE_SHOW_CLOCK \<and> wifiLostSinceMs g1 = t0
       \<and> myState g2 = STATE_SHOW_CLOCK \<and> wifiLostSinceMs g2 = t0
       \<and> myState g3 = STATE_WIFI_CONFIG \<and> wifiLostSinceMs g3 = 0)"
  using assms by (simp add: superviseWiFi_def wifiLostTimeoutMs_def Let_def)

text \<open>
  Claim C6. The scenario of the claim, run on the code: the connection is seen absent at
  tick 0, again at tick 59999 and again at tick 60001. The value 0 of \<open>wifiLostSinceMs\<close>
  also means "not absent", so the observation at tick 0 is not remembered: the call at tick
  59999 records 59999 as the start of the absence, and the call at tick 60001 sees an
  absence of 2 ms and forces no transition.
\<close>

theorem superviseWiFi_tick_zero:
  "(let g0 = initialGlobals\<lparr>myState := STATE_SHOW_CLOCK\<rparr>;
        g1 = superviseWiFi 0 False g0;
        g2 = superviseWiFi 59999 False g1;
        g3 = superviseWiFi 60001 False g2
    in myState g1 = STATE_SHOW_CLOCK \<and> wifiLostSinceMs g1 = 0
       \<and> myState g2 = STATE_SHOW_CLOCK \<and> wifiLostSinceMs g2 = 59999
       \<and> myState g3 = STATE_SHOW_CLOCK \<and> wifiLostSinceMs g3 = 59999)"
  by (simp add: superviseWiFi_def initialGlobals_def wifiLostTimeoutMs_def Let_def)

text \<open>
  Claim C7. With the reference (1700000000, tick 1000) and the current tick 61000,
  \<open>getCurrentRtcTime\<close> returns 1700000060. The elapsed milliseconds are the difference of
  the two ticks modulo \<open>2 ^ 32\<close>; so when \<open>elapsed\<close> milliseconds (fewer than \<open>2 ^ 32\<close>)
  have passed since the reference tick, the result is the reference time plus
  \<open>elapsed div 1000\<close>, whether or not the counter has wrapped in between.
\<close>

theorem getCurrentRtcTime_example_and_wrap:
  "getCurrentRtcTime sysTime 61000 (g\<lparr>rtcBaseTime := 1700000000, rtcBaseMillis := 1000\<rparr>)
     = 1700000060
   \<and> (rtcBaseTime g \<noteq> 0 \<longrightarrow>
        getCurrentRtcTime sysTime nowMillis g
          = rtcBaseTime g + ((uint nowMillis - uint (rtcBaseMillis g)) mod 2 ^ 32) div 1000)
   \<and> (rtcBaseTime g \<noteq> 0 \<longrightarrow> elapsed < 2 ^ 32 \<longrightarrow>
        getCurrentRtcTime sysTime (rtcBaseMillis g + word_of_nat elapsed) g
          = rtcBaseTime g + int (elapsed div 1000))"
proof (intro conjI impI)
  show "getCurrentRtcTime sysTime 61000 (g\<lparr>rtcBaseTime := 1700000000, rtcBaseMillis := 1000\<rparr>)
     = 1700000060"
    by (simp add: getCurrentRtcTime_def)
next
  assume "rtcBaseTime g \<noteq> 0"
  then show "getCurrentRtcTime sysTime nowMillis g
          = rtcBaseTime g + ((uint nowMillis - uint (rtcBaseMillis g)) mod 2 ^ 32) div 1000"
    by (simp add: getCurrentRtcTime_def uint_div uint_elapsed)
next
  assume nz: "rtcBaseTime g \<noteq> 0" and e: "elapsed < 2 ^ 32"
  have "uint (word_of_nat elapsed :: 32 word) = int elapsed"
    using e by (simp add: uint_nat unat_of_nat)
  then show "getCurrentRtcTime sysTime (rtcBaseMillis g + word_of_nat elapsed) g
          = rtcBaseTime g + int (elapsed div 1000)"
    using nz by (simp add: getCurrentRtcTime_def uint_div zdiv_int)
qed

theorem getCurrentRtcTime_wrap_witness:
  "rtcBaseTime (initialGlobals\<lparr>rtcBaseTime := 1700000000, rtcBaseMillis := 4294966296\<rparr>) \<noteq> 0
   \<and> (61000::nat) < 2 ^ 32
   \<and> (4294966296 + word_of_nat 61000 :: 32 word) = 60000
   \<and> getCurrentRtcTime 0 60000 (initialGlobals\<lparr>rtcBaseTime := 1700000000, rtcBaseMillis := 4294966296\<rparr>)
       = 1700000061"
  using getCurrentRtcTime_example_and_wrap
    [of 0 "initialGlobals\<lparr>rtcBaseTime := 1700000000, rtcBaseMillis := 4294966296\<rparr>" 60000 61000]
  by (simp add: initialGlobals_def)

text \<open>
  Claim C8. \<open>scheduleNextNightlySync\<close> is idempotent: a second call with the same instant
  leaves the globals as the first call left them, and the stored instant does not depend on
  the globals before the call. The stored instant is the candidate the scan finds, or
  \<open>fromUtc + 24 * 3600\<close> when the scan finds none; in both cases it is later than
  \<open>fromUtc\<close>.
\<close>

theorem scheduleNextNightlySync_idempotent_later:
  "scheduleNextNightlySync fromUtc (scheduleNextNightlySync fromUtc g) = scheduleNextNightlySync fromUtc g
   \<and> nextNtpSyncEpoch (scheduleNextNightlySync fromUtc g') = nextNtpSyncEpoch (scheduleNextNightlySync fromUtc g)
   \<and> nextNtpSyncEpoch (scheduleNextNightlySync fromUtc g)
        = (case scanFrom 0 (fromUtc - c_rem fromUtc 60 + 60) of
             Some candidateUtc \<Rightarrow> candidateUtc | None \<Rightarrow> fromUtc + 24 * 3600)
   \<and> fromUtc < nextNtpSyncEpoch (scheduleNextNightlySync fromUtc g)"
proof (intro conjI)
  show "scheduleNextNightlySync fromUtc (scheduleNextNightlySync fromUtc g) = scheduleNextNightlySync fromUtc g"
    by (simp add: scheduleNextNightlySync_def split: option.splits)
  show "nextNtpSyncEpoch (scheduleNextNightlySync fromUtc g') = nextNtpSyncEpoch (scheduleNextNightlySync fromUtc g)"
    by (rule schedule_epoch_indep)
  show "nextNtpSyncEpoch (scheduleNextNightlySync fromUtc g)
        = (case scanFrom 0 (fromUtc - c_rem fromUtc 60 + 60) of
             Some candidateUtc \<Rightarrow> candidateUtc | None \<Rightarrow> fromUtc + 24 * 3600)"
    by (simp add: scheduleNextNightlySync_def split: option.splits)
  show "fromUtc < nextNtpSyncEpoch (scheduleNextNightlySync fromUtc g)"
    by (rule schedule_later)
qed

text \<open>
  Claim C9. The three ways back into \<open>STATE_WIFI_CONFIG\<close> leave \<open>rtcBaseTime\<close> and
  \<open>rtcBaseMillis\<close> as they were, so \<open>getCurrentRtcTime\<close> returns what it would have
  returned before: \<open>superviseWiFi\<close>, which forces the transition after a long absence,
  never writes the pair; a pass of \<open>loop\<close> that ends the wait for a reading by timeout, or
  because the reading was rejected, does not write it; and no pass of \<open>loop\<close> that starts in
  \<open>STATE_SHOW_CLOCK\<close> writes it, whether or not \<open>superviseWiFi\<close> forces the transition
  in that pass.
\<close>

theorem reentry_keeps_clock_reference:
  "(rtcBaseTime (superviseWiFi nowMs connected g) = rtcBaseTime g
      \<and> rtcBaseMillis (superviseWiFi nowMs connected g) = rtcBaseMillis g
      \<and> getCurrentRtcTime sysTime ms (superviseWiFi nowMs connected g) = getCurrentRtcTime sysTime ms g)
   \<and> (\<not> conn \<and> wifiLostSinceMs gs \<noteq> 0 \<and> tick - wifiLostSinceMs gs > wifiLostTimeoutMs \<longrightarrow>
        myState (superviseWiFi tick conn gs) = STATE_WIFI_CONFIG)
   \<and> (myState gt = STATE_WAIT_FOR_TIME \<and> ntpSyncInProgress gt
        \<and> millis_state pt - ntpSyncStartMs gt > ntpWaitTimeoutMs \<longrightarrow>
        myState (loop pt gt) = STATE_WIFI_CONFIG
        \<and> rtcBaseTime (loop pt gt) = rtcBaseTime gt \<and> rtcBaseMillis (loop pt gt) = rtcBaseMillis gt
        \<and> getCurrentRtcTime sysTime ms (loop pt gt) = getCurrentRtcTime sysTime ms gt)
   \<and> (myState gr = STATE_WAIT_FOR_TIME
        \<and> \<not> (ntpSyncInProgress gr \<and> millis_state pr - ntpSyncStartMs gr > ntpWaitTimeoutMs)
        \<and> isTimeValid (time_valid pr) \<and> time_sync pr < 1451606400 \<longrightarrow>
        myState (loop pr gr) = STATE_WIFI_CONFIG
        \<and> rtcBaseTime (loop pr gr) = rtcBaseTime gr \<and> rtcBaseMillis (loop pr gr) = rtcBaseMillis gr
        \<and> getCurrentRtcTime sysTime ms (loop pr gr) = getCurrentRtcTime sysTime ms gr)
   \<and> (myState gc = STATE_SHOW_CLOCK \<longrightarrow>
        rtcBaseTime (loop pc gc) = rtcBaseTime gc \<and> rtcBaseMillis (loop pc gc) = rtcBaseMillis gc
        \<and> getCurrentRtcTime sysTime ms (loop pc gc) = getCurrentRtcTime sysTime ms gc)"
proof (intro conjI impI)
  show "rtcBaseTime (superviseWiFi nowMs connected g) = rtcBaseTime g"
    "rtcBaseMillis (superviseWiFi nowMs connected g) = rtcBaseMillis g"
    "getCurrentRtcTime sysTime ms (superviseWiFi nowMs connected g) = getCurrentRtcTime sysTime ms g"
    by (simp_all add: getCurrentRtcTime_def)
next
  assume "\<not> conn \<and> wifiLostSinceMs gs \<noteq> 0 \<and> tick - wifiLostSinceMs gs > wifiLostTimeoutMs"
  then show "myState (superviseWiFi tick conn gs) = STATE_WIFI_CONFIG"
    by (simp add: superviseWiFi_def)
next
  assume a: "myState gt = STATE_WAIT_FOR_TIME \<and> ntpSyncInProgress gt
        \<and> millis_state pt - ntpSyncStartMs gt > ntpWaitTimeoutMs"
  then have l: "loop pt gt = gt\<lparr>ntpSyncInProgress := False, myState := STATE_WIFI_CONFIG\<rparr>"
    by (simp add: loop_def)
  show "myState (loop pt gt) = STATE_WIFI_CONFIG" "rtcBaseTime (loop pt gt) = rtcBaseTime gt"
    "rtcBaseMillis (loop pt gt) = rtcBaseMillis gt"
    "getCurrentRtcTime sysTime ms (loop pt gt) = getCurrentRtcTime sysTime ms gt"
    by (simp_all add: l getCurrentRtcTime_def)
next
  assume a: "myState gr = STATE_WAIT_FOR_TIME
        \<and> \<not> (ntpSyncInProgress gr \<and> millis_state pr - ntpSyncStartMs gr > ntpWaitTimeoutMs)
        \<and> isTimeValid (time_valid pr) \<and> time_sync pr < 1451606400"
  then have l: "loop pr gr = gr\<lparr>ntpSyncInProgress := False, myState := STATE_WIFI_CONFIG\<rparr>"
    by (auto simp: loop_def syncRtcFromSystemTime_def Let_def)
  show "myState (loop pr gr) = STATE_WIFI_CONFIG" "rtcBaseTime (loop pr gr) = rtcBaseTime gr"
    "rtcBaseMillis (loop pr gr) = rtcBaseMillis gr"
    "getCurrentRtcTime sysTime ms (loop pr gr) = getCurrentRtcTime sysTime ms gr"
    by (simp_all add: l getCurrentRtcTime_def)
next
  assume a: "myState gc = STATE_SHOW_CLOCK"
  from loop_show_clock_rtc [OF a, of pc]
  show "rtcBaseTime (loop pc gc) = rtcBaseTime gc" "rtcBaseMillis (loop pc gc) = rtcBaseMillis gc"
    "getCurrentRtcTime sysTime ms (loop pc gc) = getCurrentRtcTime sysTime ms gc"
    by (simp_all add: getCurrentRtcTime_def)
qed

theorem reentry_keeps_clock_reference_witness:
  "wifiLostSinceMs (initialGlobals\<lparr>myState := STATE_SHOW_CLOCK, rtcBaseTime := 1729989000,
                                   rtcBaseMillis := 500, wifiLostSinceMs := 1000\<rparr>) \<noteq> 0
   \<and> (61001 :: ulong) - 1000 > wifiLostTimeoutMs
   \<and> myState (superviseWiFi 61001 False
         (initialGlobals\<lparr>myState := STATE_SHOW_CLOCK, rtcBaseTime := 1729989000,
                          rtcBaseMillis := 500, wifiLostSinceMs := 1000\<rparr>)) = STATE_WIFI_CONFIG
   \<and> rtcBaseTime (superviseWiFi 61001 False
         (initialGlobals\<lparr>myState := STATE_SHOW_CLOCK, rtcBaseTime := 1729989000,
                          rtcBaseMillis := 500, wifiLostSinceMs := 1000\<rparr>)) = 1729989000
   \<and> (21001 :: ulong) - 1000 > ntpWaitTimeoutMs
   \<and> myState (loop \<lparr>millis_loop = 21001, millis_state = 21001, millis_sync = 21001,
                      millis_rtc = 21001, millis_render = 21001, time_valid = 0,
                      time_sync = 0, time_rtc = 0, time_render = 0, wifi_connected = True\<rparr>
         (initialGlobals\<lparr>myState := STATE_WAIT_FOR_TIME, rtcBaseTime := 1729989000,
                          rtcBaseMillis := 500, ntpSyncInProgress := True,
                          ntpSyncStartMs := 1000\<rparr>)) = STATE_WIFI_CONFIG
   \<and> rtcBaseTime (loop \<lparr>millis_loop = 21001, millis_state = 21001, millis_sync = 21001,
                      millis_rtc = 21001, millis_render = 21001, time_valid = 0,
                      time_sync = 0, time_rtc = 0, time_render = 0, wifi_connected = True\<rparr>
         (initialGlobals\<lparr>myState := STATE_WAIT_FOR_TIME, rtcBaseTime := 1729989000,
                          rtcBaseMillis := 500, ntpSyncInProgress := True,
                          ntpSyncStartMs := 1000\<rparr>)) = 1729989000
   \<and> isTimeValid 1451606400 \<and> (1451606399 :: int) < 1451606400
   \<and> myState (loop \<lparr>millis_loop = 2000, millis_state = 2000, millis_sync = 2000,
                      millis_rtc = 2000, millis_render = 2000, time_valid = 1451606400,
                      time_sync = 1451606399, time_rtc = 0, time_render = 0,
                      wifi_connected = True\<rparr>
         (initialGlobals\<lparr>myState := STATE_WAIT_FOR_TIME, rtcBaseTime := 1729989000,
                          rtcBaseMillis := 500, ntpSyncInProgress := True,
                          ntpSyncStartMs := 1000\<rparr>)) = STATE_WIFI_CONFIG
   \<and> rtcBaseTime (loop \<lparr>millis_loop = 2000, millis_state = 2000, millis_sync = 2000,
                      millis_rtc = 2000, millis_render = 2000, time_valid = 1451606400,
                      time_sync = 1451606399, time_rtc = 0, time_render = 0,
                      wifi_connected = True\<rparr>
         (initialGlobals\<lparr>myState := STATE_WAIT_FOR_TIME, rtcBaseTime := 1729989000,
                          rtcBaseMillis := 500, ntpSyncInProgress := True,
                          ntpSyncStartMs := 1000\<rparr>)) = 1729989000
   \<and> rtcBaseTime (loop \<lparr>millis_loop = 61001, millis_state = 61001, millis_sync = 61001,
                      millis_rtc = 61001, millis_render = 61001, time_valid = 0,
                      time_sync = 0, time_rtc = 0, time_render = 0, wifi_connected = False\<rparr>
         (initialGlobals\<lparr>myState := STATE_SHOW_CLOCK, rtcBaseTime := 1729989000,
                          rtcBaseMillis := 500, wifiLostSinceMs := 1000\<rparr>)) = 1729989000"
  using reentry_keeps_clock_reference
    [of 61001 False
        "initialGlobals\<lparr>myState := STATE_SHOW_CLOCK, rtcBaseTime := 1729989000,
                         rtcBaseMillis := 500, wifiLostSinceMs := 1000\<rparr>"
        0 0 False
        "initialGlobals\<lparr>myState := STATE_SHOW_CLOCK, rtcBaseTime := 1729989000,
                         rtcBaseMillis := 500, wifiLostSinceMs := 1000\<rparr>"
        61001
        "initialGlobals\<lparr>myState := STATE_WAIT_FOR_TIME, rtcBaseTime := 1729989000,
                         rtcBaseMillis := 500, ntpSyncInProgress := True,
                         ntpSyncStartMs := 1000\<rparr>"
        "\<lparr>millis_loop = 21001, millis_state = 21001, millis_sync = 21001,
          millis_rtc = 21001, millis_render = 21001, time_valid = 0,
          time_sync = 0, time_rtc = 0, time_render = 0, wifi_connected = True\<rparr>"
        "initialGlobals\<lparr>myState := STATE_WAIT_FOR_TIME, rtcBaseTime := 1729989000,
                         rtcBaseMillis := 500, ntpSyncInProgress := True,
                         ntpSyncStartMs := 1000\<rparr>"
        "\<lparr>millis_loop = 2000, millis_state = 2000, millis_sync = 2000,
          millis_rtc = 2000, millis_render = 2000, time_valid = 1451606400,
          time_sync = 1451606399, time_rtc = 0, time_render = 0, wifi_connected = True\<rparr>"
        "initialGlobals\<lparr>myState := STATE_SHOW_CLOCK, rtcBaseTime := 1729989000,
                         rtcBaseMillis := 500, wifiLostSinceMs := 1000\<rparr>"
        "\<lparr>millis_loop = 61001, millis_state = 61001, millis_sync = 61001,
          millis_rtc = 61001, millis_render = 61001, time_valid = 0,
          time_sync = 0, time_rtc = 0, time_render = 0, wifi_connected = False\<rparr>"]
  by (simp add: initialGlobals_def ntpWaitTimeoutMs_def wifiLostTimeoutMs_def isTimeValid_def)

text \<open>
  Claim C10. While \<open>rtcBaseTime\<close> is 0, \<open>getCurrentRtcTime\<close> returns the system time it
  reads. Otherwise it returns \<open>rtcBaseTime\<close> plus the elapsed milliseconds divided by 1000,
  the elapsed milliseconds being the difference of the ticks modulo \<open>2 ^ 32\<close>.
\<close>

theorem getCurrentRtcTime_cases:
  "(rtcBaseTime g = 0 \<longrightarrow> getCurrentRtcTime sysTime nowMillis g = sysTime)
   \<and> (rtcBaseTime g \<noteq> 0 \<longrightarrow>
        getCurrentRtcTime sysTime nowMillis g
          = rtcBaseTime g + uint (nowMillis - rtcBaseMillis g) div 1000
        \<and> uint (nowMillis - rtcBaseMillis g) = (uint nowMillis - uint (rtcBaseMillis g)) mod 2 ^ 32)"
  by (simp add: getCurrentRtcTime_def uint_div uint_word_ariths)

theorem getCurrentRtcTime_cases_witness:
  "rtcBaseTime initialGlobals = 0
   \<and> getCurrentRtcTime 1729989000 5000 initialGlobals = 1729989000
   \<and> rtcBaseTime (initialGlobals\<lparr>rtcBaseTime := 1729989000, rtcBaseMillis := 4294966296\<rparr>) \<noteq> 0
   \<and> getCurrentRtcTime 12 4000 (initialGlobals\<lparr>rtcBaseTime := 1729989000, rtcBaseMillis := 4294966296\<rparr>)
       = 1729989005"
  using getCurrentRtcTime_cases [of initialGlobals 1729989000 5000]
    getCurrentRtcTime_cases [of "initialGlobals\<lparr>rtcBaseTime := 1729989000, rtcBaseMillis := 4294966296\<rparr>" 12 4000]
  by (simp add: initialGlobals_def)

end
